theory Spec2Isabelle
  imports Complex_Main "HOL-Library.Multiset" "HOL-Library.Sublist"
begin

section \<open>Data model of namemaker\<close>

text \<open>
  The embedding follows \<^verbatim>\<open>src/namemaker/__init__.py\<close>.
  \<^item> Python exceptions are values of \<open>error\<close>; a function that can raise returns
    \<open>error + 'a\<close> with \<open>Inl\<close> for the exception.
  \<^item> Numbers (the values of a \<^verbatim>\<open>name_len_func\<close>, the cached average, the \<^verbatim>\<open>order\<close>
    argument) are exact rationals; a division by zero is the branch \<open>ZeroDivisionError\<close>.
  \<^item> A letter of a Markov chain is a \<open>char option\<close>: \<open>None\<close> is \<^verbatim>\<open>_END = None\<close>.
  \<^item> A \<^verbatim>\<open>_markov_dict\<close> is an association list with distinct keys, in insertion order.
  \<^item> A function object is a \<open>metric\<close>: the function with an identity \<open>fid\<close>; the
    source compares functions with \<^verbatim>\<open>is\<close>, the model compares their identities.
  \<^item> A \<^verbatim>\<open>_history\<close> set is a cell of the \<open>world\<close>'s heap, and a name-set holds the
    cell's address: several name-sets can hold one cell. The other containers of a name-set
    (\<^verbatim>\<open>_names\<close>, \<^verbatim>\<open>_names_set\<close>, \<^verbatim>\<open>_markov_dict\<close>) are values of the record.
  \<^item> The attribute \<^verbatim>\<open>_in_operation\<close> only selects the stack level of a warning, and
    warnings have no effect on the state: both are left out.
\<close>

datatype error = ValueError | TypeError | ZeroDivisionError | KeyError | IndexError

definition bind :: "error + 'a \<Rightarrow> ('a \<Rightarrow> error + 'b) \<Rightarrow> error + 'b" where
  "bind r f = (case r of Inl e \<Rightarrow> Inl e | Inr v \<Rightarrow> f v)"

type_synonym letter = "char option"
type_synonym markov = "(string \<times> letter list) list"

record metric =
  fid :: nat
  func :: "string \<Rightarrow> rat"

record name_set =
  names :: "string list"
  names_set :: "string set"
  order :: nat
  name_len_func :: metric
  avg_name_len :: rat
  markov_dict :: markov
  history :: nat

record world =
  next_ref :: nat
  heap :: "nat \<Rightarrow> string set"

text \<open>\<^verbatim>\<open>set()\<close> and \<^verbatim>\<open>{*s}\<close> for a history: a new cell with the given contents.\<close>

definition alloc :: "world \<Rightarrow> string set \<Rightarrow> nat \<times> world" where
  "alloc w s = (next_ref w, w\<lparr>next_ref := Suc (next_ref w), heap := (heap w)(next_ref w := s)\<rparr>)"

definition DEFAULT_ORDER :: rat where
  "DEFAULT_ORDER = 3"

text \<open>\<^verbatim>\<open>DEFAULT_NAME_LEN_FUNC = len\<close>\<close>

definition DEFAULT_NAME_LEN_FUNC :: metric where
  "DEFAULT_NAME_LEN_FUNC = \<lparr>fid = 0, func = (\<lambda>s. of_nat (length s))\<rparr>"

text \<open>\<^verbatim>\<open>MIN, MAX, AVG = range(3)\<close>\<close>

definition MIN_pref :: int where
  "MIN_pref = 0"

definition MAX_pref :: int where
  "MAX_pref = 1"

definition AVG_pref :: int where
  "AVG_pref = 2"

text \<open>\<^verbatim>\<open>int(x)\<close> on a number truncates towards zero.\<close>

definition py_int :: "rat \<Rightarrow> int" where
  "py_int q = (if 0 \<le> q then \<lfloor>q\<rfloor> else \<lceil>q\<rceil>)"

subsection \<open>Transition table: \<^verbatim>\<open>_make_markov_dict\<close>\<close>

text \<open>
  \<^verbatim>\<open>try: d[k].append(l) except KeyError: d[k] = [l]\<close>: the letter goes to the end of
  the key's list, and a new key goes to the end of the dictionary.
\<close>

fun md_append :: "markov \<Rightarrow> string \<Rightarrow> letter \<Rightarrow> markov" where
  "md_append [] k l = [(k, [l])]"
| "md_append ((k', ls) # md) k l =
     (if k' = k then (k', ls @ [l]) # md else (k', ls) # md_append md k l)"

text \<open>
  \<^verbatim>\<open>previous_letter += letter; if len(previous_letter) > self._order:
  previous_letter = previous_letter[1:]\<close>
\<close>

definition next_key :: "nat \<Rightarrow> string \<Rightarrow> char \<Rightarrow> string" where
  "next_key n key c = (let key' = key @ [c] in if length key' > n then tl key' else key')"

text \<open>The inner loop over the letters of one name, then the \<^verbatim>\<open>_END\<close> entry.\<close>

fun add_name :: "nat \<Rightarrow> markov \<Rightarrow> string \<Rightarrow> string \<Rightarrow> markov" where
  "add_name n md previous_letter [] = md_append md previous_letter None"
| "add_name n md previous_letter (c # cs) =
     add_name n (md_append md previous_letter (Some c)) (next_key n previous_letter c) cs"

definition make_markov_dict :: "name_set \<Rightarrow> name_set" where
  "make_markov_dict self =
     self\<lparr>markov_dict := foldl (\<lambda>md name. add_name (order self) md [] name) [] (names self)\<rparr>"

subsection \<open>Length metric: \<^verbatim>\<open>_update_avg_name_len\<close>\<close>

definition update_avg_name_len :: "name_set \<Rightarrow> name_set" where
  "update_avg_name_len self =
     (if names self \<noteq> []
      then self\<lparr>avg_name_len :=
             sum_list (map (func (name_len_func self)) (names self)) / of_nat (length (names self))\<rparr>
      else self\<lparr>avg_name_len := 0\<rparr>)"

subsection \<open>Construction, copy, order and metric changes\<close>

text \<open>
  \<^verbatim>\<open>NameSet.__init__\<close>: the two order checks, the copies of the names, the average, the
  table, a new empty history.
\<close>

definition NameSet :: "world \<Rightarrow> string list \<Rightarrow> rat \<Rightarrow> metric \<Rightarrow> error + (name_set \<times> world)" where
  "NameSet w nms ord f =
     (if of_int (py_int ord) \<noteq> ord then Inl ValueError
      else if ord < 0 then Inl ValueError
      else
        let (h, w') = alloc w {};
            self = \<lparr>names = nms, names_set = set nms, order = nat (py_int ord),
                    name_len_func = f, avg_name_len = 0, markov_dict = [], history = h\<rparr>
        in Inr (make_markov_dict (update_avg_name_len self), w'))"

text \<open>\<^verbatim>\<open>NameSet.copy\<close>: a new object, then every container copied, the history too.\<close>

definition copy :: "world \<Rightarrow> name_set \<Rightarrow> error + (name_set \<times> world)" where
  "copy w self =
     bind (NameSet w [] (of_nat (order self)) (name_len_func self)) (\<lambda>(copy_set, w1).
       let (h, w2) = alloc w1 (heap w1 (history self))
       in Inr (copy_set\<lparr>names := names self, names_set := names_set self,
                 markov_dict := markov_dict self, avg_name_len := avg_name_len self,
                 history := h\<rparr>, w2))"

definition change_order :: "name_set \<Rightarrow> rat \<Rightarrow> error + name_set" where
  "change_order self ord =
     (if of_int (py_int ord) \<noteq> ord then Inl ValueError
      else if ord < 0 then Inl ValueError
      else Inr (make_markov_dict (self\<lparr>order := nat (py_int ord)\<rparr>)))"

definition change_name_len_func :: "name_set \<Rightarrow> metric \<Rightarrow> name_set" where
  "change_name_len_func self f = update_avg_name_len (self\<lparr>name_len_func := f\<rparr>)"

subsection \<open>History operations\<close>

text \<open>
  The right operand of an operator and the argument of \<^verbatim>\<open>add_to_history\<close>: a bare
  string, a collection of names (in its iteration order) or a name-set.
\<close>

datatype operand = Str string | Names "string list" | NSet name_set

text \<open>Iterating over an operand that is not a string: \<^verbatim>\<open>_NameSetIterator\<close> for a name-set.\<close>

fun iter :: "operand \<Rightarrow> string list" where
  "iter (Str s) = map (\<lambda>c. [c]) s"
| "iter (Names xs) = xs"
| "iter (NSet s) = names s"

definition get_history :: "world \<Rightarrow> name_set \<Rightarrow> string set" where
  "get_history w self = heap w (history self)"

text \<open>
  \<^verbatim>\<open>add_to_history\<close>: a string is wrapped into a one-element set, then the history
  object is updated in place. No branch raises.
\<close>

definition add_to_history :: "world \<Rightarrow> name_set \<Rightarrow> operand \<Rightarrow> error + world" where
  "add_to_history w self name_s =
     (let name_s' = (case name_s of Str s \<Rightarrow> Names [s] | _ \<Rightarrow> name_s)
      in Inr (w\<lparr>heap := (heap w)(history self := heap w (history self) \<union> set (iter name_s'))\<rparr>))"

definition clear_history :: "world \<Rightarrow> name_set \<Rightarrow> world" where
  "clear_history w self = w\<lparr>heap := (heap w)(history self := {})\<rparr>"

text \<open>
  \<^verbatim>\<open>link_histories\<close>: \<^verbatim>\<open>set.union\<close> builds a new set, which becomes the history of
  this name-set and of every other one given. The updated objects are returned.
\<close>

definition link_histories ::
  "world \<Rightarrow> name_set \<Rightarrow> name_set list \<Rightarrow> world \<times> name_set \<times> name_set list" where
  "link_histories w self other_name_sets =
     (let other_histories = map (\<lambda>s. heap w (history s)) other_name_sets;
          (shared_history, w') = alloc w (heap w (history self) \<union> \<Union> (set other_histories))
      in (w', self\<lparr>history := shared_history\<rparr>,
          map (\<lambda>s. s\<lparr>history := shared_history\<rparr>) other_name_sets))"

definition unlink_history :: "world \<Rightarrow> name_set \<Rightarrow> world \<times> name_set" where
  "unlink_history w self =
     (let (h, w') = alloc w (heap w (history self)) in (w', self\<lparr>history := h\<rparr>))"

subsection \<open>The in-place operators and the corpus mutators\<close>

text \<open>\<^verbatim>\<open>self._markov_dict[k] += v\<close> for a key of the dictionary, \<^verbatim>\<open>self._markov_dict[k] = v\<close> otherwise.\<close>

fun md_extend :: "markov \<Rightarrow> string \<times> letter list \<Rightarrow> markov" where
  "md_extend [] (k, v) = [(k, v)]"
| "md_extend ((k', ls) # md) (k, v) =
     (if k' = k then (k', ls @ v) # md else (k', ls) # md_extend md (k, v))"

text \<open>
  The three steps of \<^verbatim>\<open>NameSet.__iadd__\<close> on its right operand: an operand that is no
  name-set becomes one, with the order and the metric of \<open>self\<close>; a name-set of another
  order is copied and the copy is changed to the order of \<open>self\<close>; a name-set of
  another metric is copied and the copy is changed to the metric of \<open>self\<close>.
\<close>

definition operand_name_set ::
  "world \<Rightarrow> name_set \<Rightarrow> operand \<Rightarrow> error + (name_set \<times> world)" where
  "operand_name_set w self other_name_set =
     (case other_name_set of
        NSet s \<Rightarrow> Inr (s, w)
      | _ \<Rightarrow> NameSet w (iter other_name_set) (of_nat (order self)) (name_len_func self))"

definition match_order ::
  "world \<Rightarrow> name_set \<Rightarrow> name_set \<Rightarrow> error + (name_set \<times> world)" where
  "match_order w self other_name_set =
     (if order self \<noteq> order other_name_set
      then bind (copy w other_name_set) (\<lambda>(c, w').
             bind (change_order c (of_nat (order self))) (\<lambda>c'. Inr (c', w')))
      else Inr (other_name_set, w))"

definition match_name_len_func ::
  "world \<Rightarrow> name_set \<Rightarrow> name_set \<Rightarrow> error + (name_set \<times> world)" where
  "match_name_len_func w self other_name_set =
     (if fid (name_len_func self) \<noteq> fid (name_len_func other_name_set)
      then bind (copy w other_name_set) (\<lambda>(c, w').
             Inr (change_name_len_func c (name_len_func self), w'))
      else Inr (other_name_set, w))"

text \<open>
  \<^verbatim>\<open>NameSet.__iadd__\<close>: a string raises \<^verbatim>\<open>TypeError\<close>; the new average is the sum of
  the two averages, each times its length, divided by the sum of the two lengths; the
  names, the set of names and the table of the operand are added to those of \<open>self\<close>.
\<close>

definition NameSet_iadd :: "world \<Rightarrow> name_set \<Rightarrow> operand \<Rightarrow> error + (name_set \<times> world)" where
  "NameSet_iadd w self other_name_set =
     (case other_name_set of
        Str s \<Rightarrow> Inl TypeError
      | _ \<Rightarrow>
        bind (operand_name_set w self other_name_set) (\<lambda>(other1, w1).
        bind (match_order w1 self other1) (\<lambda>(other2, w2).
        bind (match_name_len_func w2 self other2) (\<lambda>(other3, w3).
        if length (names self) + length (names other3) = 0 then Inl ZeroDivisionError
        else Inr (self\<lparr>avg_name_len :=
                         (avg_name_len self * of_nat (length (names self))
                          + avg_name_len other3 * of_nat (length (names other3)))
                         / of_nat (length (names self) + length (names other3)),
                       names := names self @ names other3,
                       names_set := names_set self \<union> names_set other3,
                       markov_dict := foldl md_extend (markov_dict self) (markov_dict other3)\<rparr>,
                  w3)))))"

text \<open>\<^verbatim>\<open>append\<close> is \<^verbatim>\<open>self += [name]\<close>; \<^verbatim>\<open>add\<close> appends a name that is not in the name-set.\<close>

definition append_name :: "world \<Rightarrow> name_set \<Rightarrow> string \<Rightarrow> error + (name_set \<times> world)" where
  "append_name w self name = NameSet_iadd w self (Names [name])"

definition add :: "world \<Rightarrow> name_set \<Rightarrow> string \<Rightarrow> error + (name_set \<times> world)" where
  "add w self name = (if name \<notin> names_set self then append_name w self name else Inr (self, w))"

text \<open>
  \<^verbatim>\<open>self._markov_dict[key].remove(letter)\<close>: \<^verbatim>\<open>KeyError\<close> without the key,
  \<^verbatim>\<open>ValueError\<close> without the letter, else the first occurrence goes.
\<close>

fun md_remove_letter :: "markov \<Rightarrow> string \<Rightarrow> letter \<Rightarrow> error + markov" where
  "md_remove_letter [] k l = Inl KeyError"
| "md_remove_letter ((k', ls) # md) k l =
     (if k' = k then (if l \<in> set ls then Inr ((k', remove1 l ls) # md) else Inl ValueError)
      else bind (md_remove_letter md k l) (\<lambda>md'. Inr ((k', ls) # md')))"

fun remove_letters :: "markov \<Rightarrow> string \<Rightarrow> letter list \<Rightarrow> error + markov" where
  "remove_letters md key [] = Inr md"
| "remove_letters md key (letter # remove_letters') =
     bind (md_remove_letter md key letter) (\<lambda>md'. remove_letters md' key remove_letters')"

text \<open>\<^verbatim>\<open>if not self._markov_dict[key]: del(self._markov_dict[key])\<close>\<close>

definition md_del_if_empty :: "markov \<Rightarrow> string \<Rightarrow> error + markov" where
  "md_del_if_empty md key =
     (case map_of md key of
        None \<Rightarrow> Inl KeyError
      | Some ls \<Rightarrow> Inr (if ls = [] then filter (\<lambda>(k, _). k \<noteq> key) md else md))"

fun remove_items :: "markov \<Rightarrow> markov \<Rightarrow> error + markov" where
  "remove_items md [] = Inr md"
| "remove_items md ((key, ls) # items) =
     bind (remove_letters md key ls) (\<lambda>md1.
       bind (md_del_if_empty md1 key) (\<lambda>md2. remove_items md2 items))"

text \<open>
  \<^verbatim>\<open>NameSet.remove\<close>: \<^verbatim>\<open>list.remove\<close> takes the first occurrence or raises
  \<^verbatim>\<open>ValueError\<close>; \<^verbatim>\<open>set.remove\<close> raises \<^verbatim>\<open>KeyError\<close>, which the handler does not
  catch; the letters of the name leave the table; the average is corrected with
  \<^verbatim>\<open>len(name)\<close> and divided by the new length.
\<close>

definition remove :: "world \<Rightarrow> name_set \<Rightarrow> string \<Rightarrow> error + (name_set \<times> world)" where
  "remove w self name =
     (if name \<notin> set (names self) then Inl ValueError
      else
        let names' = remove1 name (names self)
        in if name \<notin> set names' \<and> name \<notin> names_set self then Inl KeyError
        else
          let names_set' = (if name \<notin> set names' then names_set self - {name}
                            else names_set self)
          in bind (NameSet w [name] (of_nat (order self)) DEFAULT_NAME_LEN_FUNC)
               (\<lambda>(remove_name_set, w1).
             bind (remove_items (markov_dict self) (markov_dict remove_name_set)) (\<lambda>md'.
               let sum_lengths = avg_name_len self * of_nat (length names' + 1);
                   sum_lengths' = sum_lengths - of_nat (length name)
               in if length names' = 0 then Inl ZeroDivisionError
                  else Inr (self\<lparr>names := names', names_set := names_set',
                                 markov_dict := md',
                                 avg_name_len := sum_lengths' / of_nat (length names')\<rparr>,
                            w1))))"

text \<open>\<^verbatim>\<open>remove_duplicates\<close>: the loop runs over a copy of the names, with a local set.\<close>

fun remove_duplicates_loop ::
  "world \<Rightarrow> name_set \<Rightarrow> string set \<Rightarrow> string list \<Rightarrow> error + (name_set \<times> world)" where
  "remove_duplicates_loop w self seen [] = Inr (self, w)"
| "remove_duplicates_loop w self seen (name # rest) =
     (if name \<in> seen
      then bind (remove w self name) (\<lambda>(self', w'). remove_duplicates_loop w' self' seen rest)
      else remove_duplicates_loop w self (insert name seen) rest)"

definition remove_duplicates :: "world \<Rightarrow> name_set \<Rightarrow> error + (name_set \<times> world)" where
  "remove_duplicates w self = remove_duplicates_loop w self {} (names self)"

text \<open>\<^verbatim>\<open>NameSet.__isub__\<close>: \<^verbatim>\<open>for name in other_names: if name in self: self.remove(name)\<close>\<close>

fun isub_loop :: "world \<Rightarrow> name_set \<Rightarrow> string list \<Rightarrow> error + (name_set \<times> world)" where
  "isub_loop w self [] = Inr (self, w)"
| "isub_loop w self (name # rest) =
     (if name \<in> names_set self
      then bind (remove w self name) (\<lambda>(self', w'). isub_loop w' self' rest)
      else isub_loop w self rest)"

definition NameSet_isub :: "world \<Rightarrow> name_set \<Rightarrow> operand \<Rightarrow> error + (name_set \<times> world)" where
  "NameSet_isub w self other_names =
     (case other_names of
        Str s \<Rightarrow> Inl TypeError
      | _ \<Rightarrow> isub_loop w self (iter other_names))"

text \<open>\<^verbatim>\<open>NameSet.__ior__\<close>: the names that are new, added with \<^verbatim>\<open>+=\<close>, then \<^verbatim>\<open>remove_duplicates\<close>.\<close>

definition NameSet_ior :: "world \<Rightarrow> name_set \<Rightarrow> operand \<Rightarrow> error + (name_set \<times> world)" where
  "NameSet_ior w self other_name_set =
     (case other_name_set of
        Str s \<Rightarrow> Inl TypeError
      | _ \<Rightarrow>
        let new_names = filter (\<lambda>name. name \<notin> names_set self) (iter other_name_set)
        in bind (NameSet_iadd w self (Names new_names)) (\<lambda>(self1, w1).
             remove_duplicates w1 self1))"

text \<open>
  \<^verbatim>\<open>NameSet.__iand__\<close>: each name of \<open>self\<close> that is still in the list of the other
  names is kept, and one occurrence of it leaves that list; the table and the average are
  made again.
\<close>

fun shared_names_loop :: "string list \<Rightarrow> string list \<Rightarrow> string list \<Rightarrow> string list" where
  "shared_names_loop [] other_names_list shared_names = shared_names"
| "shared_names_loop (name # rest) other_names_list shared_names =
     (if name \<in> set other_names_list
      then shared_names_loop rest (remove1 name other_names_list) (shared_names @ [name])
      else shared_names_loop rest other_names_list shared_names)"

definition NameSet_iand :: "world \<Rightarrow> name_set \<Rightarrow> operand \<Rightarrow> error + (name_set \<times> world)" where
  "NameSet_iand w self other_name_set =
     (case other_name_set of
        Str s \<Rightarrow> Inl TypeError
      | _ \<Rightarrow>
        let shared_names = shared_names_loop (names self) (iter other_name_set) []
        in Inr (update_avg_name_len (make_markov_dict
                  (self\<lparr>names := shared_names, names_set := set shared_names\<rparr>)), w))"

subsection \<open>The operators that return a new name-set\<close>

text \<open>
  \<^verbatim>\<open>__add__\<close>, \<^verbatim>\<open>__sub__\<close>, \<^verbatim>\<open>__or__\<close>, \<^verbatim>\<open>__and__\<close>: a copy, the in-place operator on the
  copy, \<^verbatim>\<open>clear_history\<close> on the copy.
\<close>

definition NameSet_add :: "world \<Rightarrow> name_set \<Rightarrow> operand \<Rightarrow> error + (name_set \<times> world)" where
  "NameSet_add w self other_name_set =
     bind (copy w self) (\<lambda>(copy_set, w1).
       bind (NameSet_iadd w1 copy_set other_name_set) (\<lambda>(copy_set', w2).
         Inr (copy_set', clear_history w2 copy_set')))"

definition NameSet_sub :: "world \<Rightarrow> name_set \<Rightarrow> operand \<Rightarrow> error + (name_set \<times> world)" where
  "NameSet_sub w self other_names =
     bind (copy w self) (\<lambda>(copy_set, w1).
       bind (NameSet_isub w1 copy_set other_names) (\<lambda>(copy_set', w2).
         Inr (copy_set', clear_history w2 copy_set')))"

definition NameSet_or :: "world \<Rightarrow> name_set \<Rightarrow> operand \<Rightarrow> error + (name_set \<times> world)" where
  "NameSet_or w self other_name_set =
     bind (copy w self) (\<lambda>(copy_set, w1).
       bind (NameSet_ior w1 copy_set other_name_set) (\<lambda>(copy_set', w2).
         Inr (copy_set', clear_history w2 copy_set')))"

definition NameSet_and :: "world \<Rightarrow> name_set \<Rightarrow> operand \<Rightarrow> error + (name_set \<times> world)" where
  "NameSet_and w self other_name_set =
     bind (copy w self) (\<lambda>(copy_set, w1).
       bind (NameSet_iand w1 copy_set other_name_set) (\<lambda>(copy_set', w2).
         Inr (copy_set', clear_history w2 copy_set')))"

section \<open>Generation\<close>

subsection \<open>The validity filter\<close>

text \<open>
  \<^verbatim>\<open>str.casefold\<close> on the letters A to Z; every other character is left as it is (the
  model's characters are bytes, and the names of the model are ASCII).
\<close>

definition casefold_char :: "char \<Rightarrow> char" where
  "casefold_char c =
     (let n = (of_char c :: nat) in if 65 \<le> n \<and> n \<le> 90 then char_of (n + 32) else c)"

definition casefold :: "string \<Rightarrow> string" where
  "casefold s = map casefold_char s"

text \<open>
  \<^verbatim>\<open>is_clean\<close>: the loop over the banned words returns \<^verbatim>\<open>False\<close> at the first word
  whose casefolded form is a substring (\<^verbatim>\<open>in\<close>) of the casefolded name. The set of banned
  words is the list of its elements in iteration order.
\<close>

fun is_clean :: "string \<Rightarrow> string list \<Rightarrow> bool" where
  "is_clean name [] = True"
| "is_clean name (word # banned_words) =
     (if sublist (casefold word) (casefold name) then False else is_clean name banned_words)"

text \<open>The keyword arguments of \<^verbatim>\<open>make_name\<close>.\<close>

record make_name_args =
  exclude_real_names :: bool
  exclude_history :: bool
  add_to_history_arg :: bool
  n_candidates :: int
  pref_candidate :: int
  max_attempts :: int
  validation_func :: "(string \<Rightarrow> bool) option"

definition DEFAULT_MAX_ATTEMPTS :: int where
  "DEFAULT_MAX_ATTEMPTS = 1000"

definition DEFAULT_N_CANDIDATES :: int where
  "DEFAULT_N_CANDIDATES = 2"

definition default_args :: make_name_args where
  "default_args =
     \<lparr>exclude_real_names = True, exclude_history = True, add_to_history_arg = True,
      n_candidates = DEFAULT_N_CANDIDATES, pref_candidate = AVG_pref,
      max_attempts = DEFAULT_MAX_ATTEMPTS, validation_func = None\<rparr>"

text \<open>
  The expression \<^verbatim>\<open>name_valid\<close> of \<^verbatim>\<open>make_name\<close>; \<^verbatim>\<open>name in self\<close> is
  \<^verbatim>\<open>__contains__\<close>, which reads \<^verbatim>\<open>_names_set\<close>; a \<^verbatim>\<open>validation_func\<close> that is
  \<^verbatim>\<open>None\<close> is \<^verbatim>\<open>_PASS_EVERYTHING\<close>.
\<close>

definition name_valid ::
  "world \<Rightarrow> name_set \<Rightarrow> string list \<Rightarrow> make_name_args \<Rightarrow> string \<Rightarrow> bool" where
  "name_valid w self banned_words args name =
     (name \<noteq> []
      \<and> (case validation_func args of None \<Rightarrow> True | Some v \<Rightarrow> v name)
      \<and> \<not> (exclude_real_names args \<and> name \<in> names_set self)
      \<and> \<not> (exclude_history args \<and> name \<in> heap w (history self))
      \<and> is_clean name banned_words)"

subsection \<open>The generator\<close>

text \<open>
  The random number generator is the list of the numbers it will draw: \<^verbatim>\<open>rng.choice(xs)\<close>
  takes the next number \<open>d\<close> and returns \<open>xs ! (d mod length xs)\<close>. A generation that
  needs more numbers than the list holds has the value \<open>None\<close>: it had not finished.
  \<^verbatim>\<open>_get_letter\<close> returns \<^verbatim>\<open>_END\<close> for a key that is not in the table (\<^verbatim>\<open>KeyError\<close>) and
  for an empty list (\<^verbatim>\<open>IndexError\<close>), and draws nothing then.
\<close>

definition get_letter :: "name_set \<Rightarrow> string \<Rightarrow> nat list \<Rightarrow> (letter \<times> nat list) option" where
  "get_letter self key rng =
     (case map_of (markov_dict self) key of
        None \<Rightarrow> Some (None, rng)
      | Some ls \<Rightarrow>
          if ls = [] then Some (None, rng)
          else (case rng of [] \<Rightarrow> None | d # rng' \<Rightarrow> Some (ls ! (d mod length ls), rng')))"

text \<open>\<^verbatim>\<open>_make_name_raw\<close>: the loop \<^verbatim>\<open>while True\<close>, from the empty name and the empty key.\<close>

function make_name_raw_loop ::
  "name_set \<Rightarrow> string \<Rightarrow> string \<Rightarrow> nat list \<Rightarrow> (string \<times> nat list) option" where
  "make_name_raw_loop self name next_letter_key rng =
     (case get_letter self next_letter_key rng of
        None \<Rightarrow> None
      | Some (None, rng') \<Rightarrow> Some (name, rng')
      | Some (Some next_letter, rng') \<Rightarrow>
          make_name_raw_loop self (name @ [next_letter])
            (next_key (order self) next_letter_key next_letter) rng')"
  by pat_completeness auto
termination
  by (relation "measure (\<lambda>(self, name, key, rng). length rng)")
     (auto simp: get_letter_def split: option.splits if_splits list.splits)

declare make_name_raw_loop.simps [simp del]

definition make_name_raw :: "name_set \<Rightarrow> nat list \<Rightarrow> (string \<times> nat list) option" where
  "make_name_raw self rng = make_name_raw_loop self [] [] rng"

subsection \<open>The candidate selector: \<^verbatim>\<open>make_name\<close>\<close>

text \<open>
  The loop \<^verbatim>\<open>while n_attempts < max_attempts\<close> of one candidate: \<open>Some name\<close> when
  the loop leaves with \<^verbatim>\<open>break\<close> after appending \<open>name\<close>, \<open>None\<close> when the attempts
  are used up.
\<close>

function attempts_loop ::
  "world \<Rightarrow> name_set \<Rightarrow> string list \<Rightarrow> make_name_args \<Rightarrow> int \<Rightarrow> nat list
   \<Rightarrow> (string option \<times> nat list) option" where
  "attempts_loop w self banned_words args n_attempts rng =
     (if n_attempts < max_attempts args
      then (case make_name_raw self rng of
              None \<Rightarrow> None
            | Some (name, rng') \<Rightarrow>
                if name_valid w self banned_words args name then Some (Some name, rng')
                else attempts_loop w self banned_words args (n_attempts + 1) rng')
      else Some (None, rng))"
  by pat_completeness auto
termination
  by (relation "measure (\<lambda>(w, self, banned_words, args, n_attempts, rng).
        nat (max_attempts args - n_attempts))") auto

declare attempts_loop.simps [simp del]

text \<open>\<^verbatim>\<open>for i in range(n_candidates)\<close>, with the number of rounds that are left.\<close>

fun candidates_loop ::
  "world \<Rightarrow> name_set \<Rightarrow> string list \<Rightarrow> make_name_args \<Rightarrow> nat \<Rightarrow> string list \<Rightarrow> nat list
   \<Rightarrow> (string list \<times> nat list) option" where
  "candidates_loop w self banned_words args 0 name_candidates rng = Some (name_candidates, rng)"
| "candidates_loop w self banned_words args (Suc i) name_candidates rng =
     (case attempts_loop w self banned_words args 0 rng of
        None \<Rightarrow> None
      | Some (found, rng') \<Rightarrow>
          candidates_loop w self banned_words args i
            (case found of None \<Rightarrow> name_candidates | Some name \<Rightarrow> name_candidates @ [name])
            rng')"

text \<open>
  The choice of \<^verbatim>\<open>sort_key\<close>: the relative error against the cached average for
  \<^verbatim>\<open>AVG\<close>, whose division raises when the average is zero; the metric for \<^verbatim>\<open>MIN\<close> and
  \<^verbatim>\<open>MAX\<close>; \<^verbatim>\<open>ValueError\<close> for any other value.
\<close>

definition sort_key_of :: "name_set \<Rightarrow> int \<Rightarrow> error + (string \<Rightarrow> error + rat)" where
  "sort_key_of self pref =
     (if pref = AVG_pref
      then Inr (\<lambda>name. if avg_name_len self = 0 then Inl ZeroDivisionError
                        else Inr (\<bar>func (name_len_func self) name - avg_name_len self\<bar>
                                  / avg_name_len self))
      else if pref = MIN_pref \<or> pref = MAX_pref
      then Inr (\<lambda>name. Inr (func (name_len_func self) name))
      else Inl ValueError)"

text \<open>
  \<^verbatim>\<open>list.sort(key = k, reverse = r)\<close>: the key of every element is computed first,
  then the sort is stable; with \<^verbatim>\<open>reverse\<close> the list is reversed before and after the
  sort, so that elements with equal keys keep their order.
\<close>

fun eval_keys :: "('a \<Rightarrow> error + rat) \<Rightarrow> 'a list \<Rightarrow> error + (rat \<times> 'a) list" where
  "eval_keys key [] = Inr []"
| "eval_keys key (x # xs) =
     bind (key x) (\<lambda>k. bind (eval_keys key xs) (\<lambda>kxs. Inr ((k, x) # kxs)))"

definition py_sort :: "('a \<Rightarrow> error + rat) \<Rightarrow> bool \<Rightarrow> 'a list \<Rightarrow> error + 'a list" where
  "py_sort key reverse xs =
     bind (eval_keys key xs) (\<lambda>kxs.
       Inr (map snd (if reverse then rev (sort_key fst (rev kxs)) else sort_key fst kxs)))"

text \<open>
  \<^verbatim>\<open>make_name\<close>: the candidates, the early return of the empty string, the sort, the
  first element, the history. The result is \<open>None\<close> when the generator had not finished.
\<close>

definition make_name ::
  "world \<Rightarrow> name_set \<Rightarrow> string list \<Rightarrow> make_name_args \<Rightarrow> nat list
   \<Rightarrow> ((error + string \<times> world) \<times> nat list) option" where
  "make_name w self banned_words args rng =
     (case candidates_loop w self banned_words args (nat (n_candidates args)) [] rng of
        None \<Rightarrow> None
      | Some (name_candidates, rng') \<Rightarrow>
          Some (if name_candidates = [] then Inr ([], w)
                else bind (sort_key_of self (pref_candidate args)) (\<lambda>key.
                     bind (py_sort key (pref_candidate args = MAX_pref) name_candidates)
                       (\<lambda>sorted.
                        case sorted of
                          [] \<Rightarrow> Inl IndexError
                        | name # _ \<Rightarrow>
                            if add_to_history_arg args
                            then bind (add_to_history w self (Str name)) (\<lambda>w'. Inr (name, w'))
                            else Inr (name, w))),
                rng'))"

section \<open>Notions of the statements\<close>

text \<open>The mean that the cached average stands for: \<^verbatim>\<open>sum(metric(s) for s in corpus) / len(corpus)\<close>, and 0 for the empty corpus.\<close>

definition mean_len :: "name_set \<Rightarrow> rat" where
  "mean_len self =
     (if names self = [] then 0
      else sum_list (map (func (name_len_func self)) (names self)) / of_nat (length (names self)))"

text \<open>A world without any history, and two metrics that are not \<^verbatim>\<open>len\<close>.\<close>

text \<open>The exception a result stands for, if it is one.\<close>

definition raised :: "error + 'a \<Rightarrow> error option" where
  "raised r = (case r of Inl e \<Rightarrow> Some e | Inr v \<Rightarrow> None)"

definition empty_world :: world where
  "empty_world = \<lparr>next_ref = 0, heap = (\<lambda>a. {})\<rparr>"

definition double_len :: metric where
  "double_len = \<lparr>fid = 1, func = (\<lambda>s. 2 * of_nat (length s))\<rparr>"

definition zero_len :: metric where
  "zero_len = \<lparr>fid = 2, func = (\<lambda>s. 0)\<rparr>"

text \<open>Two name-sets with a history each, in a world of two history cells.\<close>

definition hist_world :: world where
  "hist_world = \<lparr>next_ref = 2, heap = (\<lambda>a. {})(0 := {''ann''}, 1 := {''bob''})\<rparr>"

definition set_a :: name_set where
  "set_a = \<lparr>names = [], names_set = {}, order = 3, name_len_func = DEFAULT_NAME_LEN_FUNC,
            avg_name_len = 0, markov_dict = [], history = 0\<rparr>"

definition set_b :: name_set where
  "set_b = \<lparr>names = [], names_set = {}, order = 3, name_len_func = DEFAULT_NAME_LEN_FUNC,
            avg_name_len = 0, markov_dict = [], history = 1\<rparr>"

text \<open>
  A later world: the history cells that were there are there with the same contents
  (new cells may have been added).
\<close>

definition world_extends :: "world \<Rightarrow> world \<Rightarrow> bool" where
  "world_extends w w' = (next_ref w \<le> next_ref w' \<and> (\<forall>a<next_ref w. heap w' a = heap w a))"




text \<open>The metric \<^verbatim>\<open>lambda s: -len(s)\<close>.\<close>

definition neg_len :: metric where
  "neg_len = \<lparr>fid = 3, func = (\<lambda>s. - of_nat (length s))\<rparr>"

text \<open>
  \<open>first_least key xs x\<close>: \<open>x\<close> is the element of \<open>xs\<close> with the least key, and the first
  of them in the order of \<open>xs\<close> when several have the least key.
\<close>

definition first_least :: "('a \<Rightarrow> rat) \<Rightarrow> 'a list \<Rightarrow> 'a \<Rightarrow> bool" where
  "first_least key xs x =
     (\<exists>i<length xs. x = xs ! i \<and> (\<forall>j<length xs. key (xs ! i) \<le> key (xs ! j))
        \<and> (\<forall>j<i. key (xs ! i) < key (xs ! j)))"

text \<open>
  \<open>raw_run self k rng\<close>: the names of \<open>k\<close> successive calls of \<^verbatim>\<open>_make_name_raw\<close>, and
  the draws that are left.
\<close>

fun raw_run :: "name_set \<Rightarrow> nat \<Rightarrow> nat list \<Rightarrow> (string list \<times> nat list) option" where
  "raw_run self 0 rng = Some ([], rng)"
| "raw_run self (Suc k) rng =
     (case make_name_raw self rng of
        None \<Rightarrow> None
      | Some (name, rng') \<Rightarrow>
          (case raw_run self k rng' of
             None \<Rightarrow> None
           | Some (raws, rng'') \<Rightarrow> Some (name # raws, rng'')))"

text \<open>
  The raw names \<open>raws\<close> generated for one slot with \<open>m\<close> attempts allowed: at most \<open>m\<close> of
  them, none valid before the last one, and all \<open>m\<close> of them when none is valid.
\<close>

definition slot_ok :: "(string \<Rightarrow> bool) \<Rightarrow> int \<Rightarrow> string list \<Rightarrow> bool" where
  "slot_ok valid m raws =
     (int (length raws) \<le> max 0 m \<and> (\<forall>x\<in>set (butlast raws). \<not> valid x)
      \<and> (find valid raws = None \<longrightarrow> int (length raws) = max 0 m))"

text \<open>The world after \<^verbatim>\<open>if add_to_history: self.add_to_history(name)\<close>.\<close>

definition recorded :: "world \<Rightarrow> name_set \<Rightarrow> bool \<Rightarrow> string \<Rightarrow> world" where
  "recorded w self flag name =
     (if flag then w\<lparr>heap := (heap w)(history self := insert name (heap w (history self)))\<rparr>
      else w)"

section \<open>The cached average\<close>

text \<open>
  C1. The cached average is to be the mean of the metric over the corpus after every
  mutating operation, also after \<^verbatim>\<open>remove\<close> on a name-set whose metric is not the
  character count. \<^verbatim>\<open>remove\<close> corrects the average with \<^verbatim>\<open>len(name)\<close>, not with the
  metric of the name: from the corpus \<^verbatim>\<open>['ab', 'cd']\<close> with the metric
  \<^verbatim>\<open>lambda s: 2 * len(s)\<close> (average 4), removing \<^verbatim>\<open>'ab'\<close> leaves the corpus
  \<^verbatim>\<open>['cd']\<close>, whose mean is 4, with the cached average 6.
\<close>

theorem remove_average_uses_len:
  "(case bind (NameSet empty_world [''ab'', ''cd''] DEFAULT_ORDER double_len)
           (\<lambda>(self, w). remove w self ''ab'') of
      Inl e \<Rightarrow> False
    | Inr (self', w') \<Rightarrow>
        names self' = [''cd''] \<and> avg_name_len self' = 6 \<and> mean_len self' = 4)"
  by code_simp

text \<open>
  C9. Addition is to succeed for every pair of name-sets, with the mean 0 for the sum of
  two empty corpora. The new average is a quotient by the sum of the two lengths: for two
  empty corpora \<^verbatim>\<open>NameSet([]) + NameSet([])\<close> and \<^verbatim>\<open>NameSet([]) + []\<close> raise
  \<^verbatim>\<open>ZeroDivisionError\<close>.
\<close>

theorem add_empty_to_empty_raises:
  "(case NameSet empty_world [] DEFAULT_ORDER DEFAULT_NAME_LEN_FUNC of
      Inl e \<Rightarrow> False
    | Inr (a, w) \<Rightarrow>
        (case NameSet w [] DEFAULT_ORDER DEFAULT_NAME_LEN_FUNC of
           Inl e \<Rightarrow> False
         | Inr (b, w') \<Rightarrow>
             raised (NameSet_add w' a (NSet b)) = Some ZeroDivisionError
             \<and> raised (NameSet_add w' a (Names [])) = Some ZeroDivisionError))"
  by code_simp

section \<open>The corpus under the operators\<close>

text \<open>
  C5. \<^verbatim>\<open>A - B\<close> is to remove, for each value, the smaller of its two multiplicities,
  so \<^verbatim>\<open>NameSet(['a']) - ['a']\<close> is to be a name-set with the empty corpus. \<^verbatim>\<open>remove\<close>
  divides the corrected sum by the new length of the corpus: removing the last name
  raises \<^verbatim>\<open>ZeroDivisionError\<close>, and so does the subtraction.
\<close>

theorem sub_last_name_raises:
  "(case NameSet empty_world [''a''] DEFAULT_ORDER DEFAULT_NAME_LEN_FUNC of
      Inl e \<Rightarrow> False
    | Inr (a, w) \<Rightarrow> raised (NameSet_sub w a (Names [''a''])) = Some ZeroDivisionError)"
  by code_simp

section \<open>The candidate selector\<close>

text \<open>
  C4. With a cached average of 0 and a valid candidate, \<^verbatim>\<open>make_name\<close> with the
  preference \<^verbatim>\<open>AVG\<close> is to rank by the metric and return a candidate. The sort key
  divides by the cached average: for the corpus \<^verbatim>\<open>['ab']\<close> with the metric
  \<^verbatim>\<open>lambda s: 0\<close>, \<^verbatim>\<open>make_name(exclude_real_names = False)\<close> finds the candidate
  \<^verbatim>\<open>'ab'\<close> twice and raises \<^verbatim>\<open>ZeroDivisionError\<close>.
\<close>

theorem make_name_avg_zero_mean_raises:
  "(case NameSet empty_world [''ab''] DEFAULT_ORDER zero_len of
      Inl e \<Rightarrow> False
    | Inr (self, w) \<Rightarrow>
        avg_name_len self = 0
        \<and> candidates_loop w self [] (default_args\<lparr>exclude_real_names := False\<rparr>) 2 []
             [0, 0, 0, 0, 0, 0] = Some ([''ab'', ''ab''], [])
        \<and> map_option (raised \<circ> fst)
             (make_name w self [] (default_args\<lparr>exclude_real_names := False\<rparr>)
                [0, 0, 0, 0, 0, 0]) = Some (Some ZeroDivisionError))"
  by code_simp

text \<open>
  C10. A preference that is none of \<^verbatim>\<open>MIN\<close>, \<^verbatim>\<open>MAX\<close>, \<^verbatim>\<open>AVG\<close> is to raise at the
  call of \<^verbatim>\<open>make_name\<close>, also when no valid candidate is found. The check of the
  preference comes after the early return for an empty list of candidates:
  \<^verbatim>\<open>NameSet([]).make_name(pref_candidate = 7)\<close> returns the empty string.
\<close>

theorem make_name_unknown_pref_no_candidates:
  "(case NameSet empty_world [] DEFAULT_ORDER DEFAULT_NAME_LEN_FUNC of
      Inl e \<Rightarrow> False
    | Inr (self, w) \<Rightarrow>
        (case make_name w self [] (default_args\<lparr>pref_candidate := 7\<rparr>) [] of
           Some (Inr (name, w'), rng') \<Rightarrow> name = [] \<and> get_history w' self = get_history w self
         | _ \<Rightarrow> False))"
  by code_simp

section \<open>Linked histories\<close>

text \<open>
  C7. After \<^verbatim>\<open>a.link_histories(b)\<close> the two name-sets hold one history, the union of
  the two they had: a name added through either of them is in the history of both, and
  clearing through either clears both. After \<^verbatim>\<open>b.unlink_history()\<close> the history of
  \<open>b\<close> is what it was at that moment, the history of \<open>a\<close> is not changed, and a name
  added through \<open>a\<close> later is added to the history of \<open>a\<close> only: the history of \<open>b\<close>
  stays as it was, so the name is not visible through \<open>b\<close> unless it was there before.
\<close>

theorem linked_histories_share:
  assumes link: "link_histories w a [b] = (w1, a1, [b1])"
    and add_a: "add_to_history w1 a1 (Str n) = Inr w2"
    and add_b: "add_to_history w1 b1 (Str m) = Inr w2'"
    and unlink: "unlink_history w2 b1 = (w3, b3)"
    and add_later: "add_to_history w3 a1 (Str k) = Inr w4"
  shows "get_history w1 a1 = get_history w a \<union> get_history w b
       \<and> get_history w1 b1 = get_history w1 a1
       \<and> get_history w2 a1 = insert n (get_history w1 a1)
       \<and> get_history w2 b1 = insert n (get_history w1 b1)
       \<and> get_history w2' a1 = insert m (get_history w1 a1)
       \<and> get_history w2' b1 = insert m (get_history w1 b1)
       \<and> get_history (clear_history w1 a1) b1 = {}
       \<and> get_history (clear_history w1 b1) a1 = {}
       \<and> get_history w3 b3 = get_history w2 b1
       \<and> get_history w3 a1 = get_history w2 a1
       \<and> get_history w4 a1 = insert k (get_history w3 a1)
       \<and> get_history w4 b3 = get_history w3 b3
       \<and> (k \<notin> get_history w3 b3 \<longrightarrow> k \<notin> get_history w4 b3)"
proof -
  from link have a1: "history a1 = next_ref w" and b1: "history b1 = next_ref w"
    and w1: "w1 = w\<lparr>next_ref := Suc (next_ref w),
                     heap := (heap w)(next_ref w := heap w (history a) \<union> heap w (history b))\<rparr>"
    by (auto simp: link_histories_def alloc_def Let_def)
  from add_a have w2: "w2 = w1\<lparr>heap := (heap w1)(history a1 := insert n (heap w1 (history a1)))\<rparr>"
    by (auto simp: add_to_history_def)
  from add_b have w2': "w2' = w1\<lparr>heap := (heap w1)(history b1 := insert m (heap w1 (history b1)))\<rparr>"
    by (auto simp: add_to_history_def)
  from unlink have b3: "history b3 = next_ref w2"
    and w3: "w3 = w2\<lparr>next_ref := Suc (next_ref w2), heap := (heap w2)(next_ref w2 := heap w2 (history b1))\<rparr>"
    by (auto simp: unlink_history_def alloc_def Let_def)
  from add_later have w4: "w4 = w3\<lparr>heap := (heap w3)(history a1 := insert k (heap w3 (history a1)))\<rparr>"
    by (auto simp: add_to_history_def)
  have n2: "next_ref w2 = Suc (next_ref w)"
    by (simp add: w2 w1)
  show ?thesis
    by (simp add: get_history_def clear_history_def a1 b1 b3 n2 w4 w3 w2 w2' w1)
qed

theorem linked_histories_share_witness:
  "get_history
     (projr (add_to_history (fst (link_histories hist_world set_a [set_b]))
        (fst (snd (link_histories hist_world set_a [set_b]))) (Str ''eve'')))
     (hd (snd (snd (link_histories hist_world set_a [set_b]))))
   = {''eve'', ''ann'', ''bob''}"
proof -
  let ?r = "link_histories hist_world set_a [set_b]"
  let ?w1 = "fst ?r" and ?a1 = "fst (snd ?r)" and ?b1 = "hd (snd (snd ?r))"
  let ?w2 = "projr (add_to_history ?w1 ?a1 (Str ''eve''))"
  let ?w2' = "projr (add_to_history ?w1 ?b1 (Str ''dan''))"
  let ?u = "unlink_history ?w2 ?b1"
  let ?w4 = "projr (add_to_history (fst ?u) ?a1 (Str ''flo''))"
  have h1: "link_histories hist_world set_a [set_b] = (?w1, ?a1, [?b1])"
    by (simp add: link_histories_def alloc_def Let_def)
  have h2: "add_to_history ?w1 ?a1 (Str ''eve'') = Inr ?w2"
    by (simp add: add_to_history_def)
  have h3: "add_to_history ?w1 ?b1 (Str ''dan'') = Inr ?w2'"
    by (simp add: add_to_history_def)
  have h4: "unlink_history ?w2 ?b1 = (fst ?u, snd ?u)"
    by simp
  have h5: "add_to_history (fst ?u) ?a1 (Str ''flo'') = Inr ?w4"
    by (simp add: add_to_history_def)
  have "get_history ?w2 ?b1 = insert ''eve'' (get_history hist_world set_a \<union> get_history hist_world set_b)"
    using linked_histories_share [OF h1 h2 h3 h4 h5] by simp
  then show ?thesis
    by (auto simp: get_history_def hist_world_def set_a_def set_b_def)
qed

section \<open>Results and exceptions of the operations\<close>

text \<open>
  What each operation returns when it returns, and which exceptions it raises. The
  lemmas are about the corpus, the set of names, the history address and the world.
\<close>

lemma bind_Inr: "bind r f = Inr v \<longleftrightarrow> (\<exists>u. r = Inr u \<and> f u = Inr v)"
  by (cases r) (simp_all add: bind_def)

lemma bind_Inl: "bind r f = Inl e \<longleftrightarrow> r = Inl e \<or> (\<exists>u. r = Inr u \<and> f u = Inl e)"
  by (cases r) (simp_all add: bind_def)

lemma world_extends_refl: "world_extends w w"
  by (simp add: world_extends_def)

lemma world_extends_trans: "world_extends w w1 \<Longrightarrow> world_extends w1 w2 \<Longrightarrow> world_extends w w2"
  by (auto simp: world_extends_def)

lemma py_int_of_nat: "py_int (of_nat n) = int n"
  by (simp add: py_int_def)

lemma names_make_markov_dict: "names (make_markov_dict s) = names s"
  "names_set (make_markov_dict s) = names_set s" "history (make_markov_dict s) = history s"
  "order (make_markov_dict s) = order s" "name_len_func (make_markov_dict s) = name_len_func s"
  "avg_name_len (make_markov_dict s) = avg_name_len s"
  by (simp_all add: make_markov_dict_def)

lemma names_update_avg: "names (update_avg_name_len s) = names s"
  "names_set (update_avg_name_len s) = names_set s" "history (update_avg_name_len s) = history s"
  "order (update_avg_name_len s) = order s" "name_len_func (update_avg_name_len s) = name_len_func s"
  "markov_dict (update_avg_name_len s) = markov_dict s"
  by (simp_all add: update_avg_name_len_def)

lemma NameSet_Inr:
  assumes "NameSet w nms ord f = Inr (s, w')"
  shows "names s = nms" "names_set s = set nms" "name_len_func s = f" "history s = next_ref w"
    "order s = nat (py_int ord)"
    "w' = w\<lparr>next_ref := Suc (next_ref w), heap := (heap w)(next_ref w := {})\<rparr>"
    "world_extends w w'"
  using assms
  by (auto simp: NameSet_def alloc_def Let_def names_make_markov_dict names_update_avg
      world_extends_def split: if_splits)

lemma NameSet_Inl: "NameSet w nms ord f = Inl e \<Longrightarrow> e = ValueError"
  by (auto simp: NameSet_def alloc_def Let_def split: if_splits)

lemma NameSet_of_nat: "\<exists>s w'. NameSet w nms (of_nat n) f = Inr (s, w')"
  by (simp add: NameSet_def py_int_of_nat alloc_def Let_def)

lemma copy_total: "\<exists>c w'. copy w self = Inr (c, w')"
proof -
  obtain s w1 where "NameSet w [] (of_nat (order self)) (name_len_func self) = Inr (s, w1)"
    using NameSet_of_nat by blast
  then show ?thesis
    by (simp add: copy_def bind_def alloc_def Let_def)
qed

lemma copy_Inr:
  assumes "copy w self = Inr (c, w')"
  shows "names c = names self" "names_set c = names_set self" "order c = order self"
    "name_len_func c = name_len_func self" "avg_name_len c = avg_name_len self"
    "markov_dict c = markov_dict self"
    "history c = Suc (next_ref w)" "next_ref w' = Suc (Suc (next_ref w))"
    "world_extends w w'"
    "history self < next_ref w \<Longrightarrow> heap w' (history c) = heap w (history self)"
proof -
  from assms obtain s w1 where s: "NameSet w [] (of_nat (order self)) (name_len_func self) = Inr (s, w1)"
    and r: "(let (h, w2) = alloc w1 (heap w1 (history self))
             in Inr (s\<lparr>names := names self, names_set := names_set self,
                 markov_dict := markov_dict self, avg_name_len := avg_name_len self,
                 history := h\<rparr>, w2)) = (Inr (c, w') :: error + (name_set \<times> world))"
    by (auto simp: copy_def bind_Inr)
  note S = NameSet_Inr[OF s]
  from r have c: "c = s\<lparr>names := names self, names_set := names_set self,
                 markov_dict := markov_dict self, avg_name_len := avg_name_len self,
                 history := next_ref w1\<rparr>"
    and w': "w' = w1\<lparr>next_ref := Suc (next_ref w1), heap := (heap w1)(next_ref w1 := heap w1 (history self))\<rparr>"
    by (auto simp: alloc_def Let_def)
  show "names c = names self" "names_set c = names_set self" 
    "avg_name_len c = avg_name_len self"
    "markov_dict c = markov_dict self"
    by (simp_all add: c)
  show "order c = order self" by (simp add: c S py_int_of_nat)
  show "name_len_func c = name_len_func self" by (simp add: c S)
  show "history c = Suc (next_ref w)" by (simp add: c S)
  show "next_ref w' = Suc (Suc (next_ref w))" by (simp add: w' S)
  show "world_extends w w'" by (simp add: w' S world_extends_def)
  show "history self < next_ref w \<Longrightarrow> heap w' (history c) = heap w (history self)"
    by (simp add: w' c S)
qed

lemma copy_Inl: "copy w self = Inl e \<Longrightarrow> e = ValueError"
  using copy_total[of w self] by auto

lemma change_order_Inr:
  assumes "change_order s ord = Inr s'"
  shows "names s' = names s" "names_set s' = names_set s" "history s' = history s"
    "name_len_func s' = name_len_func s" "avg_name_len s' = avg_name_len s"
    "order s' = nat (py_int ord)"
  using assms by (auto simp: change_order_def names_make_markov_dict split: if_splits)

lemma change_order_Inl: "change_order s ord = Inl e \<Longrightarrow> e = ValueError"
  by (auto simp: change_order_def split: if_splits)

lemma change_order_of_nat: "\<exists>s'. change_order s (of_nat n) = Inr s'"
  by (simp add: change_order_def py_int_of_nat)


text \<open>What the right operand of += has become when the sum is computed.\<close>

lemma change_name_len_func_simps:
  "names (change_name_len_func s f) = names s"
  "names_set (change_name_len_func s f) = names_set s"
  "history (change_name_len_func s f) = history s"
  "order (change_name_len_func s f) = order s"
  "name_len_func (change_name_len_func s f) = f"
  "markov_dict (change_name_len_func s f) = markov_dict s"
  by (simp_all add: change_name_len_func_def names_update_avg)

lemma NameSet_iadd_Str: "NameSet_iadd w self (Str x) = Inl TypeError"
  by (simp add: NameSet_iadd_def)

lemma bind_InrE:
  assumes "bind r f = Inr v"
  obtains u where "r = Inr u" and "f u = Inr v"
  using assms by (auto simp: bind_Inr)

lemma operand_name_set_Inr:
  assumes "operand_name_set w self other = Inr (o1, w1)"
  shows "names o1 = iter other" "world_extends w w1"
    "names_set o1 = (case other of NSet s \<Rightarrow> names_set s | _ \<Rightarrow> set (iter other))"
  using assms
  by (auto simp: operand_name_set_def split: operand.splits dest: NameSet_Inr simp: world_extends_refl)

lemma operand_name_set_Inl: "operand_name_set w self other = Inl e \<Longrightarrow> e = ValueError"
  by (auto simp: operand_name_set_def split: operand.splits dest: NameSet_Inl)

lemma match_order_Inr:
  assumes "match_order w1 self o1 = Inr (o2, w2)"
  shows "names o2 = names o1" "names_set o2 = names_set o1" "world_extends w1 w2"
    "order o2 = order self"
proof -
  have "names o2 = names o1 \<and> names_set o2 = names_set o1 \<and> world_extends w1 w2
        \<and> order o2 = order self"
  proof (cases "order self = order o1")
    case True
    with assms show ?thesis
      by (simp add: match_order_def world_extends_refl)
  next
    case False
    with assms obtain c where c: "copy w1 o1 = Inr (c, w2)"
      and o2: "change_order c (of_nat (order self)) = Inr o2"
      by (auto simp: match_order_def bind_Inr)
    note C = copy_Inr[OF c] and O = change_order_Inr[OF o2]
    show ?thesis
      by (simp add: C O py_int_of_nat)
  qed
  then show "names o2 = names o1" "names_set o2 = names_set o1" "world_extends w1 w2"
    "order o2 = order self"
    by simp_all
qed

lemma match_order_Inl: "match_order w1 self o1 = Inl e \<Longrightarrow> e = ValueError"
  by (auto simp: match_order_def bind_Inl split: if_splits dest: copy_Inl change_order_Inl)

lemma match_name_len_func_Inr:
  assumes "match_name_len_func w2 self o2 = Inr (o3, w3)"
  shows "names o3 = names o2" "names_set o3 = names_set o2" "world_extends w2 w3"
proof -
  have "names o3 = names o2 \<and> names_set o3 = names_set o2 \<and> world_extends w2 w3"
  proof (cases "fid (name_len_func self) = fid (name_len_func o2)")
    case True
    with assms show ?thesis
      by (simp add: match_name_len_func_def world_extends_refl)
  next
    case False
    with assms obtain c where c: "copy w2 o2 = Inr (c, w3)"
      and o3: "o3 = change_name_len_func c (name_len_func self)"
      by (auto simp: match_name_len_func_def bind_Inr)
    note C = copy_Inr[OF c]
    show ?thesis
      by (simp add: C o3 change_name_len_func_simps)
  qed
  then show "names o3 = names o2" "names_set o3 = names_set o2" "world_extends w2 w3"
    by simp_all
qed

lemma match_name_len_func_Inl: "match_name_len_func w1 self o1 = Inl e \<Longrightarrow> e = ValueError"
  by (auto simp: match_name_len_func_def bind_Inl split: if_splits dest: copy_Inl)

lemma NameSet_iadd_unfold:
  assumes "\<forall>x. other \<noteq> Str x"
  shows "NameSet_iadd w self other =
        bind (operand_name_set w self other) (\<lambda>(other1, w1).
        bind (match_order w1 self other1) (\<lambda>(other2, w2).
        bind (match_name_len_func w2 self other2) (\<lambda>(other3, w3).
        if length (names self) + length (names other3) = 0 then Inl ZeroDivisionError
        else Inr (self\<lparr>avg_name_len :=
                         (avg_name_len self * of_nat (length (names self))
                          + avg_name_len other3 * of_nat (length (names other3)))
                         / of_nat (length (names self) + length (names other3)),
                       names := names self @ names other3,
                       names_set := names_set self \<union> names_set other3,
                       markov_dict := foldl md_extend (markov_dict self) (markov_dict other3)\<rparr>,
                  w3))))"
  using assms by (cases other) (simp_all add: NameSet_iadd_def)

lemma NameSet_iadd_Inr:
  assumes "NameSet_iadd w self other = Inr (s', w')"
  shows "names s' = names self @ iter other"
    "names_set s' = names_set self \<union> (case other of NSet s \<Rightarrow> names_set s | _ \<Rightarrow> set (iter other))"
    "history s' = history self" "order s' = order self"
    "name_len_func s' = name_len_func self"
    "world_extends w w'"
    "length (names self) + length (iter other) \<noteq> 0"
    "\<forall>x. other \<noteq> Str x"
proof -
  from assms show ns: "\<forall>x. other \<noteq> Str x"
    by (auto simp: NameSet_iadd_def)
  note U = assms[unfolded NameSet_iadd_unfold[OF ns]]
  from U obtain p1 where s1: "operand_name_set w self other = Inr p1"
    and r1: "(case p1 of (other1, w1) \<Rightarrow>
        bind (match_order w1 self other1) (\<lambda>(other2, w2).
        bind (match_name_len_func w2 self other2) (\<lambda>(other3, w3).
        if length (names self) + length (names other3) = 0 then Inl ZeroDivisionError
        else Inr (self\<lparr>avg_name_len :=
                         (avg_name_len self * of_nat (length (names self))
                          + avg_name_len other3 * of_nat (length (names other3)))
                         / of_nat (length (names self) + length (names other3)),
                       names := names self @ names other3,
                       names_set := names_set self \<union> names_set other3,
                       markov_dict := foldl md_extend (markov_dict self) (markov_dict other3)\<rparr>,
                  w3)))) = Inr (s', w')"
    by (rule bind_InrE)
  obtain o1 w1 where p1: "p1 = (o1, w1)" by (cases p1)
  from r1[unfolded p1 prod.case] obtain p2 where s2: "match_order w1 self o1 = Inr p2"
    and r2: "(case p2 of (other2, w2) \<Rightarrow>
        bind (match_name_len_func w2 self other2) (\<lambda>(other3, w3).
        if length (names self) + length (names other3) = 0 then Inl ZeroDivisionError
        else Inr (self\<lparr>avg_name_len :=
                         (avg_name_len self * of_nat (length (names self))
                          + avg_name_len other3 * of_nat (length (names other3)))
                         / of_nat (length (names self) + length (names other3)),
                       names := names self @ names other3,
                       names_set := names_set self \<union> names_set other3,
                       markov_dict := foldl md_extend (markov_dict self) (markov_dict other3)\<rparr>,
                  w3))) = Inr (s', w')"
    by (rule bind_InrE)
  obtain o2 w2 where p2: "p2 = (o2, w2)" by (cases p2)
  from r2[unfolded p2 prod.case] obtain p3 where s3: "match_name_len_func w2 self o2 = Inr p3"
    and r3: "(case p3 of (other3, w3) \<Rightarrow>
        if length (names self) + length (names other3) = 0 then Inl ZeroDivisionError
        else Inr (self\<lparr>avg_name_len :=
                         (avg_name_len self * of_nat (length (names self))
                          + avg_name_len other3 * of_nat (length (names other3)))
                         / of_nat (length (names self) + length (names other3)),
                       names := names self @ names other3,
                       names_set := names_set self \<union> names_set other3,
                       markov_dict := foldl md_extend (markov_dict self) (markov_dict other3)\<rparr>,
                  w3)) = Inr (s', w')"
    by (rule bind_InrE)
  obtain o3 w3 where p3: "p3 = (o3, w3)" by (cases p3)
  from r3[unfolded p3 prod.case] have nz: "length (names self) + length (names o3) \<noteq> 0"
    and s': "s' = self\<lparr>avg_name_len :=
                         (avg_name_len self * of_nat (length (names self))
                          + avg_name_len o3 * of_nat (length (names o3)))
                         / of_nat (length (names self) + length (names o3)),
                       names := names self @ names o3,
                       names_set := names_set self \<union> names_set o3,
                       markov_dict := foldl md_extend (markov_dict self) (markov_dict o3)\<rparr>"
    and w': "w' = w3"
    by (auto split: if_splits)
  note A = operand_name_set_Inr[OF s1[unfolded p1]] and B = match_order_Inr[OF s2[unfolded p2]]
    and C = match_name_len_func_Inr[OF s3[unfolded p3]]
  show "names s' = names self @ iter other" by (simp add: s' A B C)
  show "names_set s' = names_set self \<union> (case other of NSet s \<Rightarrow> names_set s | _ \<Rightarrow> set (iter other))"
    by (simp add: s' A B C)
  show "history s' = history self" "order s' = order self" "name_len_func s' = name_len_func self"
    by (simp_all add: s')
  show "world_extends w w'"
    unfolding w' using A(2) B(3) C(3) by (blast intro: world_extends_trans)
  show "length (names self) + length (iter other) \<noteq> 0"
    using nz by (simp add: A B C)
qed

lemma NameSet_iadd_Inl:
  assumes "NameSet_iadd w self other = Inl e"
  shows "e = TypeError \<and> (\<exists>x. other = Str x) \<or> e = ValueError \<or> e = ZeroDivisionError"
proof (cases "\<forall>x. other \<noteq> Str x")
  case False
  with assms show ?thesis by (auto simp: NameSet_iadd_def)
next
  case True
  note U = assms[unfolded NameSet_iadd_unfold[OF True]]
  show ?thesis
    using U
    by (auto simp: bind_Inl split: if_splits prod.splits
          dest: operand_name_set_Inl match_order_Inl match_name_len_func_Inl)
qed

lemma md_remove_letter_Inl: "md_remove_letter md k l = Inl e \<Longrightarrow> e = KeyError \<or> e = ValueError"
  by (induction md k l rule: md_remove_letter.induct) (auto simp: bind_Inl split: if_splits)

lemma remove_letters_Inl: "remove_letters md k ls = Inl e \<Longrightarrow> e = KeyError \<or> e = ValueError"
  by (induction ls arbitrary: md) (auto simp: bind_Inl dest: md_remove_letter_Inl)

lemma md_del_if_empty_Inl: "md_del_if_empty md k = Inl e \<Longrightarrow> e = KeyError"
  by (auto simp: md_del_if_empty_def split: option.splits)

lemma remove_items_Inl: "remove_items md items = Inl e \<Longrightarrow> e = KeyError \<or> e = ValueError"
  by (induction md items arbitrary: rule: remove_items.induct)
     (auto simp: bind_Inl dest: remove_letters_Inl md_del_if_empty_Inl)

text \<open>The body of remove once the name is known to be in the list.\<close>

lemma remove_unfold:
  assumes "name \<in> set (names self)"
    and "name \<in> set (remove1 name (names self)) \<or> name \<in> names_set self"
  shows "remove w self name =
     bind (NameSet w [name] (of_nat (order self)) DEFAULT_NAME_LEN_FUNC)
       (\<lambda>(remove_name_set, w1).
     bind (remove_items (markov_dict self) (markov_dict remove_name_set)) (\<lambda>md'.
       if length (remove1 name (names self)) = 0 then Inl ZeroDivisionError
       else Inr (self\<lparr>names := remove1 name (names self),
                      names_set := (if name \<notin> set (remove1 name (names self))
                                    then names_set self - {name} else names_set self),
                      markov_dict := md',
                      avg_name_len :=
                        (avg_name_len self * of_nat (length (remove1 name (names self)) + 1)
                         - of_nat (length name))
                        / of_nat (length (remove1 name (names self)))\<rparr>,
                 w1)))"
  using assms unfolding remove_def Let_def by auto

lemma remove_Inl:
  assumes "remove w self name = Inl e"
  shows "e = ValueError \<or> e = KeyError \<or> e = ZeroDivisionError"
proof (cases "name \<in> set (names self)
              \<and> (name \<in> set (remove1 name (names self)) \<or> name \<in> names_set self)")
  case False
  with assms show ?thesis
    unfolding remove_def Let_def by (simp split: if_splits)
next
  case True
  then have U: "name \<in> set (names self)"
    "name \<in> set (remove1 name (names self)) \<or> name \<in> names_set self"
    by simp_all
  from assms[unfolded remove_unfold[OF U]] show ?thesis
    by (auto simp: bind_Inl split: if_splits prod.splits dest: NameSet_Inl remove_items_Inl)
qed


lemma remove_Inr:
  assumes "remove w self name = Inr (s', w')"
  shows "name \<in> set (names self)" "names s' = remove1 name (names self)"
    "names_set s' = (if name \<notin> set (remove1 name (names self)) then names_set self - {name}
                     else names_set self)"
    "history s' = history self" "order s' = order self"
    "name_len_func s' = name_len_func self"
    "world_extends w w'" "names s' \<noteq> []"
    "avg_name_len s' = (avg_name_len self * of_nat (length (names s') + 1) - of_nat (length name))
                       / of_nat (length (names s'))"
proof -
  from assms have U: "name \<in> set (names self)"
    "name \<in> set (remove1 name (names self)) \<or> name \<in> names_set self"
    unfolding remove_def Let_def by (auto split: if_splits)
  show "name \<in> set (names self)" by (rule U)
  from assms[unfolded remove_unfold[OF U]] obtain p where
    r: "NameSet w [name] (of_nat (order self)) DEFAULT_NAME_LEN_FUNC = Inr p"
    and r2: "(case p of (remove_name_set, w1) \<Rightarrow>
     bind (remove_items (markov_dict self) (markov_dict remove_name_set)) (\<lambda>md'.
       if length (remove1 name (names self)) = 0 then Inl ZeroDivisionError
       else Inr (self\<lparr>names := remove1 name (names self),
                      names_set := (if name \<notin> set (remove1 name (names self))
                                    then names_set self - {name} else names_set self),
                      markov_dict := md',
                      avg_name_len :=
                        (avg_name_len self * of_nat (length (remove1 name (names self)) + 1)
                         - of_nat (length name))
                        / of_nat (length (remove1 name (names self)))\<rparr>,
                 w1))) = Inr (s', w')"
    by (rule bind_InrE)
  obtain rns w1 where p: "p = (rns, w1)" by (cases p)
  from r2[unfolded p prod.case] obtain md' where
    r3: "(if length (remove1 name (names self)) = 0 then Inl ZeroDivisionError
       else Inr (self\<lparr>names := remove1 name (names self),
                      names_set := (if name \<notin> set (remove1 name (names self))
                                    then names_set self - {name} else names_set self),
                      markov_dict := md',
                      avg_name_len :=
                        (avg_name_len self * of_nat (length (remove1 name (names self)) + 1)
                         - of_nat (length name))
                        / of_nat (length (remove1 name (names self)))\<rparr>,
                 w1)) = (Inr (s', w') :: error + name_set \<times> world)"
    by (rule bind_InrE)
  have nz: "length (remove1 name (names self)) \<noteq> 0"
    using r3 by (auto split: if_splits)
  from r3 nz have s': "s' = self\<lparr>names := remove1 name (names self),
                      names_set := (if name \<notin> set (remove1 name (names self))
                                    then names_set self - {name} else names_set self),
                      markov_dict := md',
                      avg_name_len :=
                        (avg_name_len self * of_nat (length (remove1 name (names self)) + 1)
                         - of_nat (length name))
                        / of_nat (length (remove1 name (names self)))\<rparr>"
    and w': "w' = w1"
    by simp_all
  show "names s' = remove1 name (names self)"
    "names_set s' = (if name \<notin> set (remove1 name (names self)) then names_set self - {name}
                     else names_set self)"
    "history s' = history self" "order s' = order self"
    "name_len_func s' = name_len_func self"
    by (simp_all add: s')
  show "world_extends w w'"
    unfolding w' by (rule NameSet_Inr[OF r[unfolded p]])
  show "names s' \<noteq> []"
    using nz by (simp add: s')
  show "avg_name_len s' = (avg_name_len self * of_nat (length (names s') + 1) - of_nat (length name))
                       / of_nat (length (names s'))"
    by (simp add: s')
qed

lemma set_remove1_still:
  assumes "x \<in> set (remove1 x xs)"
  shows "set (remove1 x xs) = set xs"
proof (rule set_eqI)
  fix y
  show "y \<in> set (remove1 x xs) \<longleftrightarrow> y \<in> set xs"
  proof (cases "y = x")
    case True
    with assms set_remove1_subset[of x xs] show ?thesis by blast
  next
    case False
    then show ?thesis by (rule in_set_remove1)
  qed
qed

lemma set_remove1_gone:
  assumes "x \<notin> set (remove1 x xs)"
  shows "set (remove1 x xs) = set xs - {x}"
proof (rule set_eqI)
  fix y
  show "y \<in> set (remove1 x xs) \<longleftrightarrow> y \<in> set xs - {x}"
  proof (cases "y = x")
    case True
    with assms show ?thesis by blast
  next
    case False
    from in_set_remove1[OF False, of xs] False show ?thesis by blast
  qed
qed

lemma remove_keeps_names_set:
  assumes "remove w self name = Inr (s', w')" and "names_set self = set (names self)"
  shows "names_set s' = set (names s')"
proof (cases "name \<in> set (remove1 name (names self))")
  case True
  then show ?thesis
    by (simp add: remove_Inr(2,3)[OF assms(1)] assms(2) set_remove1_still)
next
  case False
  then show ?thesis
    by (simp add: remove_Inr(2,3)[OF assms(1)] assms(2) set_remove1_gone)
qed

lemma mset_diff_absent: "x \<notin># M \<Longrightarrow> M - add_mset x R = M - R"
  by (auto simp: multiset_eq_iff not_in_iff)

lemma isub_loop_Inr:
  assumes "isub_loop w self xs = Inr (s', w')"
  shows "history s' = history self \<and> world_extends w w' \<and> order s' = order self
         \<and> name_len_func s' = name_len_func self
         \<and> (names_set self = set (names self) \<longrightarrow>
              names_set s' = set (names s') \<and> mset (names s') = mset (names self) - mset xs)"
  using assms
proof (induction xs arbitrary: w self)
  case Nil
  then show ?case by (simp add: world_extends_refl)
next
  case (Cons name rest)
  show ?case
  proof (cases "name \<in> names_set self")
    case False
    with Cons.prems have "isub_loop w self rest = Inr (s', w')" by simp
    from Cons.IH[OF this] False show ?thesis
      by (auto simp: mset_diff_absent)
  next
    case True
    with Cons.prems obtain s1 w1 where r: "remove w self name = Inr (s1, w1)"
      and l: "isub_loop w1 s1 rest = Inr (s', w')"
      by (auto simp: bind_Inr)
    note R = remove_Inr[OF r] and I = Cons.IH[OF l]
    have ext: "world_extends w w'"
      using R(7) I by (blast intro: world_extends_trans)
    have inv: "names_set s' = set (names s') \<and> mset (names s') = mset (names self) - mset (name # rest)"
      if "names_set self = set (names self)"
    proof -
      have "names_set s1 = set (names s1)"
        by (rule remove_keeps_names_set[OF r that])
      with I have "names_set s' = set (names s')"
        and "mset (names s') = mset (names s1) - mset rest"
        by simp_all
      then show ?thesis
        by (simp add: R(2))
    qed
    show ?thesis
      using I ext inv by (simp add: R(4,5,6))
  qed
qed

lemma isub_loop_Inl:
  "isub_loop w self xs = Inl e \<Longrightarrow> e = ValueError \<or> e = KeyError \<or> e = ZeroDivisionError"
proof (induction xs arbitrary: w self)
  case Nil
  then show ?case by simp
next
  case (Cons name rest)
  show ?case
  proof (cases "name \<in> names_set self")
    case False
    with Cons.prems have "isub_loop w self rest = Inl e" by simp
    then show ?thesis by (rule Cons.IH)
  next
    case True
    with Cons.prems have "bind (remove w self name) (\<lambda>(self', w'). isub_loop w' self' rest) = Inl e"
      by simp
    then consider "remove w self name = Inl e"
      | s1 w1 where "remove w self name = Inr (s1, w1)" "isub_loop w1 s1 rest = Inl e"
      by (auto simp: bind_Inl)
    then show ?thesis
    proof cases
      case 1
      then show ?thesis by (rule remove_Inl)
    next
      case 2
      from 2(2) show ?thesis by (rule Cons.IH)
    qed
  qed
qed

lemma remove_duplicates_loop_Inr:
  assumes "remove_duplicates_loop w self seen todo = Inr (s', w')"
  shows "history s' = history self \<and> world_extends w w' \<and> order s' = order self
         \<and> name_len_func s' = name_len_func self
         \<and> (names_set self = set (names self) \<longrightarrow> names_set s' = set (names s'))
         \<and> (finite seen \<longrightarrow> mset (names self) = mset_set seen + mset todo \<longrightarrow>
              mset (names s') = mset_set (seen \<union> set todo))"
  using assms
proof (induction todo arbitrary: w self seen)
  case Nil
  then show ?case by (simp add: world_extends_refl)
next
  case (Cons name rest)
  show ?case
  proof (cases "name \<in> seen")
    case False
    with Cons.prems have l: "remove_duplicates_loop w self (insert name seen) rest = Inr (s', w')"
      by simp
    note I = Cons.IH[OF l]
    have "mset (names s') = mset_set (seen \<union> set (name # rest))"
      if "finite seen" "mset (names self) = mset_set seen + mset (name # rest)"
    proof -
      from that False have "mset (names self) = mset_set (insert name seen) + mset rest"
        by simp
      with I that(1) have "mset (names s') = mset_set (insert name seen \<union> set rest)"
        by simp
      then show ?thesis by simp
    qed
    with I show ?thesis by simp
  next
    case True
    with Cons.prems obtain s1 w1 where r: "remove w self name = Inr (s1, w1)"
      and l: "remove_duplicates_loop w1 s1 seen rest = Inr (s', w')"
      by (auto simp: bind_Inr)
    note R = remove_Inr[OF r] and I = Cons.IH[OF l]
    have ext: "world_extends w w'"
      using R(7) I by (blast intro: world_extends_trans)
    have inv: "names_set s' = set (names s')" if "names_set self = set (names self)"
      using I remove_keeps_names_set[OF r that] by simp
    have ms: "mset (names s') = mset_set (seen \<union> set (name # rest))"
      if "finite seen" "mset (names self) = mset_set seen + mset (name # rest)"
    proof -
      from that have "mset (names s1) = mset_set seen + mset rest"
        by (simp add: R(2))
      with I that(1) have "mset (names s') = mset_set (seen \<union> set rest)"
        by simp
      moreover from True have "seen \<union> set (name # rest) = seen \<union> set rest"
        by auto
      ultimately show ?thesis by simp
    qed
    show ?thesis
      using I ext inv ms by (simp add: R(4,5,6))
  qed
qed

lemma remove_duplicates_loop_Inl:
  "remove_duplicates_loop w self seen todo = Inl e \<Longrightarrow>
   e = ValueError \<or> e = KeyError \<or> e = ZeroDivisionError"
proof (induction todo arbitrary: w self seen)
  case Nil
  then show ?case by simp
next
  case (Cons name rest)
  show ?case
  proof (cases "name \<in> seen")
    case False
    with Cons.prems have "remove_duplicates_loop w self (insert name seen) rest = Inl e" by simp
    then show ?thesis by (rule Cons.IH)
  next
    case True
    with Cons.prems have "bind (remove w self name)
        (\<lambda>(self', w'). remove_duplicates_loop w' self' seen rest) = Inl e"
      by simp
    then consider "remove w self name = Inl e"
      | s1 w1 where "remove w self name = Inr (s1, w1)"
          "remove_duplicates_loop w1 s1 seen rest = Inl e"
      by (auto simp: bind_Inl)
    then show ?thesis
    proof cases
      case 1
      then show ?thesis by (rule remove_Inl)
    next
      case 2
      from 2(2) show ?thesis by (rule Cons.IH)
    qed
  qed
qed

lemma remove_duplicates_Inr:
  assumes "remove_duplicates w self = Inr (s', w')"
  shows "history s' = history self" "world_extends w w'" "order s' = order self"
    "name_len_func s' = name_len_func self"
    "names_set self = set (names self) \<Longrightarrow> names_set s' = set (names s')"
    "mset (names s') = mset_set (set (names self))"
    "set (names s') = set (names self)" "distinct (names s')"
proof -
  note L = remove_duplicates_loop_Inr[OF assms[unfolded remove_duplicates_def]]
  from L show "history s' = history self" "world_extends w w'" "order s' = order self"
    "name_len_func s' = name_len_func self"
    "names_set self = set (names self) \<Longrightarrow> names_set s' = set (names s')"
    by simp_all
  from L show ms: "mset (names s') = mset_set (set (names self))"
    by simp
  from ms have "set_mset (mset (names s')) = set_mset (mset_set (set (names self)))"
    by simp
  then show st: "set (names s') = set (names self)"
    by simp
  have "count (mset (names s')) a = (if a \<in> set (names s') then 1 else 0)" for a
    unfolding st unfolding ms by (simp add: count_mset_set')
  then show "distinct (names s')"
    unfolding distinct_count_atmost_1 by blast
qed

lemma remove_duplicates_Inl:
  "remove_duplicates w self = Inl e \<Longrightarrow> e = ValueError \<or> e = KeyError \<or> e = ZeroDivisionError"
  unfolding remove_duplicates_def by (rule remove_duplicates_loop_Inl)


lemma NameSet_isub_Inr:
  assumes "NameSet_isub w self other = Inr (s', w')"
  shows "history s' = history self" "world_extends w w'" "order s' = order self"
    "name_len_func s' = name_len_func self"
    "names_set self = set (names self) \<Longrightarrow> names_set s' = set (names s')"
    "names_set self = set (names self) \<Longrightarrow> mset (names s') = mset (names self) - mset (iter other)"
    "\<forall>x. other \<noteq> Str x"
proof -
  from assms show ns: "\<forall>x. other \<noteq> Str x"
    by (auto simp: NameSet_isub_def)
  with assms have "isub_loop w self (iter other) = Inr (s', w')"
    by (cases other) (simp_all add: NameSet_isub_def)
  note L = isub_loop_Inr[OF this]
  from L show "history s' = history self" "world_extends w w'" "order s' = order self"
    "name_len_func s' = name_len_func self"
    "names_set self = set (names self) \<Longrightarrow> names_set s' = set (names s')"
    "names_set self = set (names self) \<Longrightarrow> mset (names s') = mset (names self) - mset (iter other)"
    by simp_all
qed

lemma NameSet_isub_Inl:
  assumes "NameSet_isub w self other = Inl e"
  shows "e = TypeError \<and> (\<exists>x. other = Str x) \<or> e = ValueError \<or> e = KeyError
         \<or> e = ZeroDivisionError"
  using assms by (cases other) (auto simp: NameSet_isub_def dest: isub_loop_Inl)

lemma NameSet_ior_Inr:
  assumes "NameSet_ior w self other = Inr (s', w')"
  shows "history s' = history self" "world_extends w w'" "order s' = order self"
    "name_len_func s' = name_len_func self"
    "names_set self = set (names self) \<Longrightarrow> names_set s' = set (names s')"
    "names_set self = set (names self) \<Longrightarrow> set (names s') = set (names self) \<union> set (iter other)"
    "distinct (names s')"
    "\<forall>x. other \<noteq> Str x"
proof -
  from assms show ns: "\<forall>x. other \<noteq> Str x"
    by (auto simp: NameSet_ior_def)
  define new_names where "new_names = filter (\<lambda>name. name \<notin> names_set self) (iter other)"
  from assms ns have "bind (NameSet_iadd w self (Names new_names))
      (\<lambda>(self1, w1). remove_duplicates w1 self1) = Inr (s', w')"
    by (cases other) (simp_all add: NameSet_ior_def new_names_def)
  then obtain s1 w1 where a: "NameSet_iadd w self (Names new_names) = Inr (s1, w1)"
    and d: "remove_duplicates w1 s1 = Inr (s', w')"
    by (auto simp: bind_Inr)
  note A = NameSet_iadd_Inr[OF a] and D = remove_duplicates_Inr[OF d]
  show "history s' = history self" "order s' = order self"
    "name_len_func s' = name_len_func self"
    by (simp_all add: A D)
  show "world_extends w w'"
    using A(6) D(2) by (rule world_extends_trans)
  show "distinct (names s')" by (rule D)
  have s1: "names_set s1 = set (names s1)" if "names_set self = set (names self)"
    using that by (simp add: A)
  show "names_set s' = set (names s')" if "names_set self = set (names self)"
    using D(5)[OF s1[OF that]] .
  show "set (names s') = set (names self) \<union> set (iter other)"
    if "names_set self = set (names self)"
    using that by (auto simp: D A new_names_def)
qed

lemma NameSet_ior_Inl:
  assumes "NameSet_ior w self other = Inl e"
  shows "e = TypeError \<and> (\<exists>x. other = Str x) \<or> e = ValueError \<or> e = KeyError
         \<or> e = ZeroDivisionError"
proof (cases "\<forall>x. other \<noteq> Str x")
  case False
  with assms show ?thesis by (auto simp: NameSet_ior_def)
next
  case True
  define new_names where "new_names = filter (\<lambda>name. name \<notin> names_set self) (iter other)"
  from assms True have "bind (NameSet_iadd w self (Names new_names))
      (\<lambda>(self1, w1). remove_duplicates w1 self1) = Inl e"
    by (cases other) (simp_all add: NameSet_ior_def new_names_def)
  then consider "NameSet_iadd w self (Names new_names) = Inl e"
    | s1 w1 where "NameSet_iadd w self (Names new_names) = Inr (s1, w1)"
        "remove_duplicates w1 s1 = Inl e"
    by (auto simp: bind_Inl)
  then show ?thesis
  proof cases
    case 1
    from NameSet_iadd_Inl[OF 1] show ?thesis by auto
  next
    case 2
    from remove_duplicates_Inl[OF 2(2)] show ?thesis by auto
  qed
qed

lemma shared_names_loop_mset:
  "mset (shared_names_loop xs other acc) = mset acc + (mset xs \<inter># mset other)"
proof (induction xs arbitrary: other acc)
  case Nil
  then show ?case by simp
next
  case (Cons name rest)
  show ?case
  proof (cases "name \<in> set other")
    case True
    then have "name \<in># mset other" by simp
    then have "add_mset name (mset rest) \<inter># mset other
               = add_mset name (mset rest \<inter># (mset other - {#name#}))"
      by (rule inter_add_left2)
    with True show ?thesis
      by (simp add: Cons.IH)
  next
    case False
    then have "name \<notin># mset other" by simp
    then have "add_mset name (mset rest) \<inter># mset other = mset rest \<inter># mset other"
      by (rule inter_add_left1)
    with False show ?thesis
      by (simp add: Cons.IH)
  qed
qed

lemma NameSet_iand_Inr:
  assumes "NameSet_iand w self other = Inr (s', w')"
  shows "history s' = history self" "w' = w" "order s' = order self"
    "name_len_func s' = name_len_func self"
    "names_set s' = set (names s')"
    "mset (names s') = mset (names self) \<inter># mset (iter other)"
    "avg_name_len s' = mean_len s'"
    "\<forall>x. other \<noteq> Str x"
proof -
  from assms show ns: "\<forall>x. other \<noteq> Str x"
    by (auto simp: NameSet_iand_def)
  define shared where "shared = shared_names_loop (names self) (iter other) []"
  from assms ns have s': "s' = update_avg_name_len (make_markov_dict
                  (self\<lparr>names := shared, names_set := set shared\<rparr>))" and w': "w' = w"
    by (cases other; simp add: NameSet_iand_def shared_def Let_def)+
  show "w' = w" by (rule w')
  show "history s' = history self" "order s' = order self"
    "name_len_func s' = name_len_func self" "names_set s' = set (names s')"
    by (simp_all add: s' names_update_avg names_make_markov_dict)
  show "mset (names s') = mset (names self) \<inter># mset (iter other)"
    by (simp add: s' names_update_avg names_make_markov_dict shared_def shared_names_loop_mset)
  show "avg_name_len s' = mean_len s'"
    by (simp add: s' mean_len_def update_avg_name_len_def names_make_markov_dict)
qed

lemma NameSet_iand_Inl:
  "NameSet_iand w self other = Inl e \<Longrightarrow> e = TypeError \<and> (\<exists>x. other = Str x)"
  by (cases other) (auto simp: NameSet_iand_def Let_def)

text \<open>The operators that return a new name-set: copy, in-place operator, clear_history.\<close>

lemma new_set_frame:
  assumes op: "bind (copy w self) (\<lambda>(copy_set, w1).
       bind (iop w1 copy_set other) (\<lambda>(copy_set', w2).
         Inr (copy_set', clear_history w2 copy_set'))) = Inr (r, w')"
    and iop: "\<And>w1 c c' w2. iop w1 c other = Inr (c', w2) \<Longrightarrow>
                history c' = history c \<and> world_extends w1 w2"
  shows "heap w' (history r) = {}" "history r = Suc (next_ref w)" "world_extends w w'"
    "\<exists>c w1 w2. copy w self = Inr (c, w1) \<and> iop w1 c other = Inr (r, w2)"
proof -
  from op obtain c w1 c' w2 where c: "copy w self = Inr (c, w1)"
    and i: "iop w1 c other = Inr (c', w2)" and r: "r = c'" and w': "w' = clear_history w2 c'"
    by (auto simp: bind_Inr)
  note C = copy_Inr[OF c] and I = iop[OF i]
  show "heap w' (history r) = {}"
    by (simp add: w' r clear_history_def)
  show h: "history r = Suc (next_ref w)"
    by (simp add: r I C)
  have "world_extends w w2"
    using C(9) I by (blast intro: world_extends_trans)
  then show "world_extends w w'"
    using h by (auto simp: w' r[symmetric] clear_history_def world_extends_def)
  show "\<exists>c w1 w2. copy w self = Inr (c, w1) \<and> iop w1 c other = Inr (r, w2)"
    using c i r by blast
qed

lemma new_set_Inl:
  assumes op: "bind (copy w self) (\<lambda>(copy_set, w1).
       bind (iop w1 copy_set other) (\<lambda>(copy_set', w2).
         Inr (copy_set', clear_history w2 copy_set'))) = Inl e"
  shows "\<exists>c w1. copy w self = Inr (c, w1) \<and> iop w1 c other = Inl e"
proof -
  obtain c w1 where c: "copy w self = Inr (c, w1)"
    using copy_total by blast
  with op have "bind (iop w1 c other) (\<lambda>(copy_set', w2).
         Inr (copy_set', clear_history w2 copy_set')) = Inl e"
    by (simp add: bind_def)
  then have "iop w1 c other = Inl e"
    by (auto simp: bind_Inl)
  with c show ?thesis by blast
qed

lemma iadd_frame: "NameSet_iadd w1 c other = Inr (c', w2) \<Longrightarrow>
    history c' = history c \<and> world_extends w1 w2"
  by (simp add: NameSet_iadd_Inr)

lemma isub_frame: "NameSet_isub w1 c other = Inr (c', w2) \<Longrightarrow>
    history c' = history c \<and> world_extends w1 w2"
  by (simp add: NameSet_isub_Inr)

lemma ior_frame: "NameSet_ior w1 c other = Inr (c', w2) \<Longrightarrow>
    history c' = history c \<and> world_extends w1 w2"
  by (simp add: NameSet_ior_Inr)

lemma iand_frame: "NameSet_iand w1 c other = Inr (c', w2) \<Longrightarrow>
    history c' = history c \<and> world_extends w1 w2"
  using NameSet_iand_Inr(1,2)[of w1 c other c' w2] by (simp add: world_extends_refl)

section \<open>Histories under the operators\<close>

text \<open>
  C6. For every name-set and every right operand, \<^verbatim>\<open>+\<close>, \<^verbatim>\<open>-\<close>, \<^verbatim>\<open>|\<close> and \<^verbatim>\<open>&\<close> are to
  return a new name-set with an empty history and to leave the left operand as it was.
  \<^verbatim>\<open>__or__\<close> copies the left operand and applies \<^verbatim>\<open>|=\<close> to the copy, which goes through
  \<^verbatim>\<open>+=\<close> and its quotient by the sum of the two lengths: for the name-set of the empty
  corpus, with the history \<^verbatim>\<open>{'ann'}\<close>, and the empty list as right operand,
  \<^verbatim>\<open>a | []\<close> raises \<^verbatim>\<open>ZeroDivisionError\<close> and returns no name-set, and so does
  \<^verbatim>\<open>a |= []\<close>.
\<close>

theorem union_of_empty_raises:
  "(case NameSet empty_world [] DEFAULT_ORDER DEFAULT_NAME_LEN_FUNC of
      Inl e \<Rightarrow> False
    | Inr (a, w) \<Rightarrow>
        (case add_to_history w a (Names [''ann'']) of
           Inl e \<Rightarrow> False
         | Inr w' \<Rightarrow>
             names a = [] \<and> get_history w' a = {''ann''}
             \<and> raised (NameSet_or w' a (Names [])) = Some ZeroDivisionError
             \<and> raised (NameSet_ior w' a (Names [])) = Some ZeroDivisionError))"
  by code_simp

text \<open>
  Whenever one of the eight operators returns, the histories are as follows. For a
  name-set \<open>self\<close> whose history is a cell of the world and every right operand: when
  \<^verbatim>\<open>+\<close>, \<^verbatim>\<open>-\<close>, \<^verbatim>\<open>|\<close> or \<^verbatim>\<open>&\<close> returns a name-set, its history is empty and is a
  cell of its own, and the history of \<open>self\<close> is what it was; when \<^verbatim>\<open>+=\<close>, \<^verbatim>\<open>-=\<close>,
  \<^verbatim>\<open>|=\<close> or \<^verbatim>\<open>&=\<close> returns, the name-set holds the same history cell with the same
  contents. No history cell that was in the world is changed by any of the eight.
\<close>

theorem operators_frame:
  assumes "history self < next_ref w"
  shows "(NameSet_add w self other = Inr (r, w') \<or> NameSet_sub w self other = Inr (r, w')
            \<or> NameSet_or w self other = Inr (r, w') \<or> NameSet_and w self other = Inr (r, w')
          \<longrightarrow> get_history w' r = {} \<and> history r \<noteq> history self
              \<and> get_history w' self = get_history w self \<and> world_extends w w')
       \<and> (NameSet_iadd w self other = Inr (r, w') \<or> NameSet_isub w self other = Inr (r, w')
            \<or> NameSet_ior w self other = Inr (r, w') \<or> NameSet_iand w self other = Inr (r, w')
          \<longrightarrow> history r = history self \<and> get_history w' r = get_history w self
              \<and> world_extends w w')"
proof (intro conjI impI)
  assume "NameSet_add w self other = Inr (r, w') \<or> NameSet_sub w self other = Inr (r, w')
            \<or> NameSet_or w self other = Inr (r, w') \<or> NameSet_and w self other = Inr (r, w')"
  then have F: "heap w' (history r) = {} \<and> history r = Suc (next_ref w) \<and> world_extends w w'"
  proof (elim disjE)
    assume a: "NameSet_add w self other = Inr (r, w')"
    from new_set_frame(1-3)[where iop = NameSet_iadd, OF a[unfolded NameSet_add_def] iadd_frame]
    show ?thesis by simp
  next
    assume a: "NameSet_sub w self other = Inr (r, w')"
    from new_set_frame(1-3)[where iop = NameSet_isub, OF a[unfolded NameSet_sub_def] isub_frame]
    show ?thesis by simp
  next
    assume a: "NameSet_or w self other = Inr (r, w')"
    from new_set_frame(1-3)[where iop = NameSet_ior, OF a[unfolded NameSet_or_def] ior_frame]
    show ?thesis by simp
  next
    assume a: "NameSet_and w self other = Inr (r, w')"
    from new_set_frame(1-3)[where iop = NameSet_iand, OF a[unfolded NameSet_and_def] iand_frame]
    show ?thesis by simp
  qed
  note F1 = F[THEN conjunct1] and F2 = F[THEN conjunct2, THEN conjunct1]
    and F3 = F[THEN conjunct2, THEN conjunct2]
  from F1 show "get_history w' r = {}" unfolding get_history_def .
  from F2 assms show "history r \<noteq> history self" by simp
  from F3 assms show "get_history w' self = get_history w self"
    by (simp add: get_history_def world_extends_def)
  from F3 show "world_extends w w'" .
next
  assume "NameSet_iadd w self other = Inr (r, w') \<or> NameSet_isub w self other = Inr (r, w')
            \<or> NameSet_ior w self other = Inr (r, w') \<or> NameSet_iand w self other = Inr (r, w')"
  then have F: "history r = history self \<and> world_extends w w'"
    using iadd_frame isub_frame ior_frame iand_frame by blast
  note F1 = F[THEN conjunct1] and F2 = F[THEN conjunct2]
  from F1 show "history r = history self" .
  from F2 assms show "get_history w' r = get_history w self"
    by (simp add: get_history_def world_extends_def F1)
  from F2 show "world_extends w w'" .
qed


theorem operators_frame_witness:
  "get_history (snd (projr (NameSet_add hist_world set_a (Names [''eve''])))) 
     (fst (projr (NameSet_add hist_world set_a (Names [''eve''])))) = {}
   \<and> get_history (snd (projr (NameSet_add hist_world set_a (Names [''eve''])))) set_a = {''ann''}
   \<and> get_history (snd (projr (NameSet_iadd hist_world set_a (Names [''eve'']))))
     (fst (projr (NameSet_iadd hist_world set_a (Names [''eve''])))) = {''ann''}"
proof -
  let ?X = "NameSet_add hist_world set_a (Names [''eve''])"
  let ?Y = "NameSet_iadd hist_world set_a (Names [''eve''])"
  have h: "history set_a < next_ref hist_world"
    by (simp add: set_a_def hist_world_def)
  have "\<not> isl ?X" by code_simp
  then have x: "?X = Inr (fst (projr ?X), snd (projr ?X))"
    by (cases ?X) simp_all
  have "\<not> isl ?Y" by code_simp
  then have y: "?Y = Inr (fst (projr ?Y), snd (projr ?Y))"
    by (cases ?Y) simp_all
  have g: "get_history hist_world set_a = {''ann''}"
    by (simp add: get_history_def hist_world_def set_a_def)
  from operators_frame[OF h, of "Names [''eve'']" "fst (projr ?X)" "snd (projr ?X)"] x
  have 1: "get_history (snd (projr ?X)) (fst (projr ?X)) = {}
           \<and> get_history (snd (projr ?X)) set_a = {''ann''}"
    by (simp add: g)
  from operators_frame[OF h, of "Names [''eve'']" "fst (projr ?Y)" "snd (projr ?Y)"] y
  have 2: "get_history (snd (projr ?Y)) (fst (projr ?Y)) = {''ann''}"
    by (simp add: g)
  from 1 2 show ?thesis by simp
qed

lemma raised_Inl: "raised r = Some e \<longleftrightarrow> r = Inl e"
  by (cases r) (simp_all add: raised_def)

lemma new_set_Str:
  assumes "\<And>w1 c. iop w1 c (Str s) = Inl TypeError"
  shows "bind (copy w self) (\<lambda>(copy_set, w1).
       bind (iop w1 copy_set (Str s)) (\<lambda>(copy_set', w2).
         Inr (copy_set', clear_history w2 copy_set'))) = Inl TypeError"
proof -
  obtain c w1 where "copy w self = Inr (c, w1)"
    using copy_total by blast
  then show ?thesis
    by (simp add: bind_def assms)
qed

section \<open>A bare string where a collection is expected\<close>

text \<open>
  C8, as it is stated, asks that a bare string raises a type error in the four operators
  and also in the history add operation. \<^verbatim>\<open>add_to_history\<close> accepts a string: it wraps
  it into a set of one name (\<^verbatim>\<open>if type(name_s) is str: name_s = {name_s}\<close>), as its
  docstring says. Adding \<^verbatim>\<open>'hey'\<close> to the history \<^verbatim>\<open>{'ann'}\<close> raises nothing and
  gives the history \<^verbatim>\<open>{'ann', 'hey'}\<close>.
\<close>

theorem add_to_history_accepts_string:
  "raised (add_to_history hist_world set_a (Str ''hey'')) \<noteq> Some TypeError
   \<and> (case add_to_history hist_world set_a (Str ''hey'') of
        Inl e \<Rightarrow> False
      | Inr w' \<Rightarrow> get_history w' set_a = {''ann'', ''hey''})"
  by (auto simp: add_to_history_def raised_def get_history_def hist_world_def set_a_def)

text \<open>
  C8, amended. The eight operators (\<^verbatim>\<open>+=\<close>, \<^verbatim>\<open>-=\<close>, \<^verbatim>\<open>|=\<close>, \<^verbatim>\<open>&=\<close>, \<^verbatim>\<open>+\<close>, \<^verbatim>\<open>-\<close>,
  \<^verbatim>\<open>|\<close>, \<^verbatim>\<open>&\<close>) raise \<^verbatim>\<open>TypeError\<close> for a bare string as right operand, for every
  name-set, and never raise \<^verbatim>\<open>TypeError\<close> for the collection that holds just that
  string. \<^verbatim>\<open>add_to_history\<close> raises nothing for a bare string and does what it does
  for the collection that holds just that string.
\<close>

theorem bare_string_operand:
  "raised (NameSet_iadd w self (Str s)) = Some TypeError
   \<and> raised (NameSet_isub w self (Str s)) = Some TypeError
   \<and> raised (NameSet_ior w self (Str s)) = Some TypeError
   \<and> raised (NameSet_iand w self (Str s)) = Some TypeError
   \<and> raised (NameSet_add w self (Str s)) = Some TypeError
   \<and> raised (NameSet_sub w self (Str s)) = Some TypeError
   \<and> raised (NameSet_or w self (Str s)) = Some TypeError
   \<and> raised (NameSet_and w self (Str s)) = Some TypeError
   \<and> raised (NameSet_iadd w self (Names [s])) \<noteq> Some TypeError
   \<and> raised (NameSet_isub w self (Names [s])) \<noteq> Some TypeError
   \<and> raised (NameSet_ior w self (Names [s])) \<noteq> Some TypeError
   \<and> raised (NameSet_iand w self (Names [s])) \<noteq> Some TypeError
   \<and> raised (NameSet_add w self (Names [s])) \<noteq> Some TypeError
   \<and> raised (NameSet_sub w self (Names [s])) \<noteq> Some TypeError
   \<and> raised (NameSet_or w self (Names [s])) \<noteq> Some TypeError
   \<and> raised (NameSet_and w self (Names [s])) \<noteq> Some TypeError
   \<and> raised (add_to_history w self (Str s)) = None
   \<and> add_to_history w self (Str s) = add_to_history w self (Names [s])"
proof -
  have i1: "NameSet_iadd w1 c (Str s) = Inl TypeError" for w1 c
    by (simp add: NameSet_iadd_def)
  have i2: "NameSet_isub w1 c (Str s) = Inl TypeError" for w1 c
    by (simp add: NameSet_isub_def)
  have i3: "NameSet_ior w1 c (Str s) = Inl TypeError" for w1 c
    by (simp add: NameSet_ior_def)
  have i4: "NameSet_iand w1 c (Str s) = Inl TypeError" for w1 c
    by (simp add: NameSet_iand_def)
  have n1: "NameSet_add w self (Str s) = Inl TypeError"
    unfolding NameSet_add_def using i1 by (rule new_set_Str)
  have n2: "NameSet_sub w self (Str s) = Inl TypeError"
    unfolding NameSet_sub_def using i2 by (rule new_set_Str)
  have n3: "NameSet_or w self (Str s) = Inl TypeError"
    unfolding NameSet_or_def using i3 by (rule new_set_Str)
  have n4: "NameSet_and w self (Str s) = Inl TypeError"
    unfolding NameSet_and_def using i4 by (rule new_set_Str)
  have j1: "NameSet_iadd w1 c (Names [s]) \<noteq> Inl TypeError" for w1 c
    using NameSet_iadd_Inl[of w1 c "Names [s]" TypeError] by auto
  have j2: "NameSet_isub w1 c (Names [s]) \<noteq> Inl TypeError" for w1 c
    using NameSet_isub_Inl[of w1 c "Names [s]" TypeError] by auto
  have j3: "NameSet_ior w1 c (Names [s]) \<noteq> Inl TypeError" for w1 c
    using NameSet_ior_Inl[of w1 c "Names [s]" TypeError] by auto
  have j4: "NameSet_iand w1 c (Names [s]) \<noteq> Inl TypeError" for w1 c
    using NameSet_iand_Inl[of w1 c "Names [s]" TypeError] by auto
  have m1: "NameSet_add w self (Names [s]) \<noteq> Inl TypeError"
    using new_set_Inl[where iop = NameSet_iadd, of w self "Names [s]" TypeError] j1
    unfolding NameSet_add_def by blast
  have m2: "NameSet_sub w self (Names [s]) \<noteq> Inl TypeError"
    using new_set_Inl[where iop = NameSet_isub, of w self "Names [s]" TypeError] j2
    unfolding NameSet_sub_def by blast
  have m3: "NameSet_or w self (Names [s]) \<noteq> Inl TypeError"
    using new_set_Inl[where iop = NameSet_ior, of w self "Names [s]" TypeError] j3
    unfolding NameSet_or_def by blast
  have m4: "NameSet_and w self (Names [s]) \<noteq> Inl TypeError"
    using new_set_Inl[where iop = NameSet_iand, of w self "Names [s]" TypeError] j4
    unfolding NameSet_and_def by blast
  have h1: "raised (add_to_history w self (Str s)) = None"
    by (simp add: add_to_history_def raised_def)
  have h2: "add_to_history w self (Str s) = add_to_history w self (Names [s])"
    by (simp add: add_to_history_def)
  show ?thesis
    unfolding raised_Inl
    by (intro conjI i1 i2 i3 i4 n1 n2 n3 n4 j1 j2 j3 j4 m1 m2 m3 m4 h1 h2)
qed

section \<open>The validity filter of \<^verbatim>\<open>make_name\<close>\<close>




section \<open>Slots, ranking and recording in \<^verbatim>\<open>make_name\<close>\<close>

lemma hd_insort_key:
  "hd (insort_key g y zs) = (if zs = [] \<or> g y \<le> g (hd zs) then y else hd zs)"
  by (cases zs) simp_all

lemma hd_sort_key_first_least:
  "xs \<noteq> [] \<Longrightarrow> first_least g xs (hd (sort_key g xs))"
proof (induction xs)
  case Nil
  then show ?case by simp
next
  case (Cons y ys)
  show ?case
  proof (cases "ys = []")
    case True
    then show ?thesis by (simp add: first_least_def)
  next
    case False
    from Cons.IH[OF False] obtain i where i: "i < length ys"
      and h: "hd (sort_key g ys) = ys ! i"
      and le: "\<forall>j<length ys. g (ys ! i) \<le> g (ys ! j)"
      and lt: "\<forall>j<i. g (ys ! i) < g (ys ! j)"
      by (auto simp: first_least_def)
    have ne: "sort_key g ys \<noteq> []"
      using False by (metis length_sort length_0_conv)
    show ?thesis
    proof (cases "g y \<le> g (ys ! i)")
      case True
      then have "hd (sort_key g (y # ys)) = y"
        by (simp add: hd_insort_key h)
      moreover have "\<forall>j<length (y # ys). g y \<le> g ((y # ys) ! j)"
      proof (intro allI impI)
        fix j assume "j < length (y # ys)"
        then show "g y \<le> g ((y # ys) ! j)"
          using True le by (cases j) (auto intro: order_trans)
      qed
      ultimately show ?thesis
        unfolding first_least_def by (intro exI[of _ 0]) simp
    next
      case False
      then have hd: "hd (sort_key g (y # ys)) = ys ! i"
        by (simp add: hd_insort_key h ne)
      have a: "\<forall>j<length (y # ys). g (ys ! i) \<le> g ((y # ys) ! j)"
      proof (intro allI impI)
        fix j assume "j < length (y # ys)"
        then show "g (ys ! i) \<le> g ((y # ys) ! j)"
          using False le by (cases j) auto
      qed
      have b: "\<forall>j<Suc i. g (ys ! i) < g ((y # ys) ! j)"
      proof (intro allI impI)
        fix j assume "j < Suc i"
        then show "g (ys ! i) < g ((y # ys) ! j)"
          using False lt by (cases j) auto
      qed
      show ?thesis
        unfolding first_least_def using i hd a b by (intro exI[of _ "Suc i"]) simp
    qed
  qed
qed

lemma rev_sort_key_rev: "rev (sort_key g (rev xs)) = sort_key (\<lambda>x. - g x) xs"
  for g :: "'a \<Rightarrow> rat"
proof (rule properties_for_sort_key[symmetric])
  show "mset (rev (sort_key g (rev xs))) = mset xs"
    by simp
  show "filter (\<lambda>x. - g k = - g x) (rev (sort_key g (rev xs))) = filter (\<lambda>x. - g k = - g x) xs"
    for k
  proof -
    have "filter (\<lambda>x. g x = g k) (sort_key g (rev xs)) = filter (\<lambda>x. g x = g k) (rev xs)"
      by (rule sort_key_stable)
    then have "rev (filter (\<lambda>x. g x = g k) (sort_key g (rev xs))) = filter (\<lambda>x. g x = g k) xs"
      by (simp add: rev_filter)
    moreover have "(\<lambda>x. - g k = - g x) = (\<lambda>x. g x = g k)"
      by auto
    ultimately show ?thesis
      by (simp add: rev_filter)
  qed
  have "sorted (map g (sort_key g (rev xs)))"
    by simp
  then have "sorted (rev (map (\<lambda>x. - g x) (sort_key g (rev xs))))"
    by (simp add: sorted_wrt_iff_nth_less rev_nth sorted_iff_nth_mono)
  then show "sorted (map (\<lambda>x. - g x) (rev (sort_key g (rev xs))))"
    by (simp add: rev_map)
qed

lemma insort_key_pairs:
  "insort_key fst (key y, y) (map (\<lambda>x. (key x, x)) zs) = map (\<lambda>x. (key x, x)) (insort_key key y zs)"
  by (induction zs) simp_all

lemma sort_key_pairs:
  "sort_key fst (map (\<lambda>x. (key x, x)) xs) = map (\<lambda>x. (key x, x)) (sort_key key xs)"
  by (induction xs) (simp_all add: insort_key_pairs)

lemma eval_keys_total:
  "eval_keys (\<lambda>x. Inr (key x)) xs = Inr (map (\<lambda>x. (key x, x)) xs)"
  by (induction xs) (simp_all add: bind_def)

lemma py_sort_total:
  "py_sort (\<lambda>x. Inr (key x)) reverse xs =
     Inr (if reverse then sort_key (\<lambda>x. - key x) xs else sort_key key xs)"
proof -
  have "map snd (map (\<lambda>x. (key x, x)) ys) = ys" for ys :: "'a list"
    by (simp add: comp_def)
  moreover have "rev (sort_key fst (rev (map (\<lambda>x. (key x, x)) xs)))
                 = map (\<lambda>x. (key x, x)) (rev (sort_key key (rev xs)))"
    by (simp add: rev_map sort_key_pairs)
  ultimately show ?thesis
    by (simp add: py_sort_def eval_keys_total bind_def sort_key_pairs rev_sort_key_rev)
qed

lemma py_sort_raises:
  "xs \<noteq> [] \<Longrightarrow> py_sort (\<lambda>x. Inl e) reverse xs = Inl e"
  by (cases xs) (simp_all add: py_sort_def bind_def)

lemma raw_run_length: "raw_run self k rng = Some (raws, rng') \<Longrightarrow> length raws = k"
  by (induction k arbitrary: rng raws) (auto split: option.splits)

lemma raw_run_append:
  "raw_run self a rng = Some (xs, r1) \<Longrightarrow> raw_run self b r1 = Some (ys, r2) \<Longrightarrow>
   raw_run self (a + b) rng = Some (xs @ ys, r2)"
  by (induction a arbitrary: rng xs) (auto split: option.splits)

lemma raw_run_split:
  "raw_run self (a + b) rng = Some (zs, r2) \<Longrightarrow>
   \<exists>xs r1 ys. raw_run self a rng = Some (xs, r1) \<and> raw_run self b r1 = Some (ys, r2)
      \<and> zs = xs @ ys"
proof (induction a arbitrary: rng zs)
  case 0
  then show ?case by simp
next
  case (Suc a)
  from Suc.prems obtain name r0 zs' where raw: "make_name_raw self rng = Some (name, r0)"
    and run: "raw_run self (a + b) r0 = Some (zs', r2)" and zs: "zs = name # zs'"
    by (auto split: option.splits)
  from Suc.IH[OF run] obtain xs r1 ys where "raw_run self a r0 = Some (xs, r1)"
    "raw_run self b r1 = Some (ys, r2)" "zs' = xs @ ys"
    by blast
  with raw zs show ?case by simp
qed

lemma raw_run_le:
  assumes "raw_run self k rng \<noteq> None" and "j \<le> k"
  shows "raw_run self j rng \<noteq> None"
proof -
  from assms(1) obtain zs r2 where "raw_run self (j + (k - j)) rng = Some (zs, r2)"
    using assms(2) by auto
  from raw_run_split[OF this] show ?thesis by auto
qed

lemma raw_run_rest:
  assumes "raw_run self (a + b) rng \<noteq> None" and "raw_run self a rng = Some (xs, r1)"
  shows "raw_run self b r1 \<noteq> None"
proof -
  from assms(1) obtain zs r2 where "raw_run self (a + b) rng = Some (zs, r2)"
    by auto
  from raw_run_split[OF this] assms(2) show ?thesis by auto
qed

lemma attempts_loop_slot:
  "attempts_loop w self banned_words args n rng = Some (found, rng') \<Longrightarrow>
   \<exists>s. raw_run self (length s) rng = Some (s, rng')
     \<and> slot_ok (name_valid w self banned_words args) (max_attempts args - n) s
     \<and> found = find (name_valid w self banned_words args) s"
proof (induction w self banned_words args n rng rule: attempts_loop.induct)
  case (1 w self banned_words args n rng)
  let ?valid = "name_valid w self banned_words args"
  show ?case
  proof (cases "n < max_attempts args")
    case False
    with "1.prems" have "found = None" "rng' = rng"
      by (simp_all add: attempts_loop.simps[of w self banned_words args n rng])
    with False show ?thesis
      by (intro exI[of _ "[]"]) (simp add: slot_ok_def)
  next
    case True
    with "1.prems" obtain name r1 where raw: "make_name_raw self rng = Some (name, r1)"
      and rest: "(if ?valid name then Some (Some name, r1)
                  else attempts_loop w self banned_words args (n + 1) r1) = Some (found, rng')"
      by (auto simp: attempts_loop.simps[of w self banned_words args n rng]
          split: option.splits)
    show ?thesis
    proof (cases "?valid name")
      case v: True
      with rest have "found = Some name" "rng' = r1" by simp_all
      with raw v True show ?thesis
        by (intro exI[of _ "[name]"]) (simp add: slot_ok_def)
    next
      case v: False
      with rest have l: "attempts_loop w self banned_words args (n + 1) r1 = Some (found, rng')"
        by simp
      from "1.IH"[OF True raw refl v l] obtain s where
        s: "raw_run self (length s) r1 = Some (s, rng')"
        and ok: "slot_ok ?valid (max_attempts args - (n + 1)) s"
        and f: "found = find ?valid s"
        by blast
      have "raw_run self (length (name # s)) rng = Some (name # s, rng')"
        using raw s by simp
      moreover have "slot_ok ?valid (max_attempts args - n) (name # s)"
        using ok v True by (auto simp: slot_ok_def split: if_splits)
      moreover have "found = find ?valid (name # s)"
        using f v by simp
      ultimately show ?thesis by blast
    qed
  qed
qed

lemma candidates_loop_slots:
  "candidates_loop w self banned_words args i acc rng = Some (cands, rng') \<Longrightarrow>
   \<exists>slots. length slots = i
     \<and> raw_run self (length (concat slots)) rng = Some (concat slots, rng')
     \<and> (\<forall>s\<in>set slots. slot_ok (name_valid w self banned_words args) (max_attempts args) s)
     \<and> cands = acc @ List.map_filter (find (name_valid w self banned_words args)) slots"
proof (induction i arbitrary: acc rng)
  case 0
  then show ?case by (intro exI[of _ "[]"]) (simp add: List.map_filter_def)
next
  case (Suc i)
  let ?valid = "name_valid w self banned_words args"
  from Suc.prems obtain found r1 where a: "attempts_loop w self banned_words args 0 rng = Some (found, r1)"
    and l: "candidates_loop w self banned_words args i
            (case found of None \<Rightarrow> acc | Some name \<Rightarrow> acc @ [name]) r1 = Some (cands, rng')"
    by (auto split: option.splits)
  from attempts_loop_slot[OF a] obtain s where s: "raw_run self (length s) rng = Some (s, r1)"
    and ok: "slot_ok ?valid (max_attempts args) s" and f: "found = find ?valid s"
    by auto
  from Suc.IH[OF l] obtain slots where n: "length slots = i"
    and run: "raw_run self (length (concat slots)) r1 = Some (concat slots, rng')"
    and oks: "\<forall>s\<in>set slots. slot_ok ?valid (max_attempts args) s"
    and c: "cands = (case found of None \<Rightarrow> acc | Some name \<Rightarrow> acc @ [name])
                    @ List.map_filter (find ?valid) slots"
    by blast
  have "raw_run self (length (concat (s # slots))) rng = Some (concat (s # slots), rng')"
    using raw_run_append[OF s run] by simp
  moreover have "cands = acc @ List.map_filter (find ?valid) (s # slots)"
    using c f by (simp split: option.splits)
  ultimately show ?case
    using n ok oks by (intro exI[of _ "s # slots"]) simp
qed

lemma attempts_loop_returns:
  "raw_run self k rng \<noteq> None \<Longrightarrow> max_attempts args - n \<le> int k \<Longrightarrow>
   attempts_loop w self banned_words args n rng \<noteq> None"
proof (induction w self banned_words args n rng arbitrary: k rule: attempts_loop.induct)
  case (1 w self banned_words args n rng)
  show ?case
  proof (cases "n < max_attempts args")
    case False
    then show ?thesis
      by (simp add: attempts_loop.simps[of w self banned_words args n rng])
  next
    case True
    with "1.prems"(2) obtain k' where k: "k = Suc k'"
      by (cases k) auto
    with "1.prems"(1) obtain name r1 where raw: "make_name_raw self rng = Some (name, r1)"
      and run: "raw_run self k' r1 \<noteq> None"
      by (auto split: option.splits)
    show ?thesis
    proof (cases "name_valid w self banned_words args name")
      case v: True
      with True raw show ?thesis
        by (simp add: attempts_loop.simps[of w self banned_words args n rng])
    next
      case v: False
      have "max_attempts args - (n + 1) \<le> int k'"
        using "1.prems"(2) k by simp
      from "1.IH"[OF True raw refl v run this] True raw v show ?thesis
        by (simp add: attempts_loop.simps[of w self banned_words args n rng])
    qed
  qed
qed

lemma candidates_loop_returns:
  "raw_run self (i * nat (max_attempts args)) rng \<noteq> None \<Longrightarrow>
   candidates_loop w self banned_words args i acc rng \<noteq> None"
proof (induction i arbitrary: acc rng)
  case 0
  then show ?case by simp
next
  case (Suc i)
  let ?m = "nat (max_attempts args)"
  have "raw_run self ?m rng \<noteq> None"
    using Suc.prems by (rule raw_run_le) simp
  then have "attempts_loop w self banned_words args 0 rng \<noteq> None"
    by (rule attempts_loop_returns) simp
  then obtain found r1 where a: "attempts_loop w self banned_words args 0 rng = Some (found, r1)"
    by auto
  from attempts_loop_slot[OF a] obtain s where s: "raw_run self (length s) rng = Some (s, r1)"
    and ok: "slot_ok (name_valid w self banned_words args) (max_attempts args) s"
    by auto
  from ok have le: "length s \<le> ?m"
    by (auto simp: slot_ok_def)
  then have "raw_run self (length s + (Suc i * ?m - length s)) rng \<noteq> None"
    using Suc.prems by (simp add: trans_le_add1)
  from raw_run_rest[OF this s] have "raw_run self (Suc i * ?m - length s) r1 \<noteq> None" .
  then have "raw_run self (i * ?m) r1 \<noteq> None"
    by (rule raw_run_le) (use le in simp)
  from Suc.IH[OF this] a show ?case
    by (simp split: option.splits)
qed

lemma make_name_None:
  "make_name w self banned_words args rng = None \<longleftrightarrow>
   candidates_loop w self banned_words args (nat (n_candidates args)) [] rng = None"
  by (simp add: make_name_def split: option.splits)

lemma make_name_no_candidates:
  assumes "candidates_loop w self banned_words args (nat (n_candidates args)) [] rng = Some ([], rng')"
  shows "make_name w self banned_words args rng = Some (Inr ([], w), rng')"
  using assms by (simp add: make_name_def)

lemma make_name_with_key:
  assumes cl: "candidates_loop w self banned_words args (nat (n_candidates args)) [] rng
               = Some (cands, rng')"
    and ne: "cands \<noteq> []"
    and key: "sort_key_of self (pref_candidate args) = Inr (\<lambda>x. Inr (key x))"
  shows "make_name w self banned_words args rng =
     Some (Inr (hd (if pref_candidate args = MAX_pref then sort_key (\<lambda>x. - key x) cands
                    else sort_key key cands),
                recorded w self (add_to_history_arg args)
                  (hd (if pref_candidate args = MAX_pref then sort_key (\<lambda>x. - key x) cands
                       else sort_key key cands))), rng')"
proof -
  define sorted where "sorted = (if pref_candidate args = MAX_pref
      then sort_key (\<lambda>x. - key x) cands else sort_key key cands)"
  have "length sorted = length cands"
    by (simp add: sorted_def)
  with ne obtain name rest where s: "sorted = name # rest"
    by (cases sorted) auto
  have p: "py_sort (\<lambda>x. Inr (key x)) (pref_candidate args = MAX_pref) cands = Inr sorted"
    by (simp add: py_sort_total sorted_def)
  have "make_name w self banned_words args rng =
     Some (Inr (name, recorded w self (add_to_history_arg args) name), rng')"
    using cl ne
    by (simp add: make_name_def key p bind_def s add_to_history_def recorded_def)
  then show ?thesis
    unfolding sorted_def[symmetric] by (simp add: s)
qed

lemma make_name_avg_zero:
  assumes cl: "candidates_loop w self banned_words args (nat (n_candidates args)) [] rng
               = Some (cands, rng')"
    and ne: "cands \<noteq> []" and "pref_candidate args = AVG_pref" and "avg_name_len self = 0"
  shows "make_name w self banned_words args rng = Some (Inl ZeroDivisionError, rng')"
proof -
  from assms(3,4) have "sort_key_of self (pref_candidate args) = Inr (\<lambda>x. Inl ZeroDivisionError)"
    by (simp add: sort_key_of_def)
  with cl ne show ?thesis
    by (simp add: make_name_def bind_def py_sort_raises)
qed

lemma make_name_unknown_pref:
  assumes cl: "candidates_loop w self banned_words args (nat (n_candidates args)) [] rng
               = Some (cands, rng')"
    and "pref_candidate args \<noteq> MIN_pref" "pref_candidate args \<noteq> MAX_pref"
      "pref_candidate args \<noteq> AVG_pref"
  shows "make_name w self banned_words args rng
         = Some (if cands = [] then Inr ([], w) else Inl ValueError, rng')"
proof -
  from assms(2-4) have "sort_key_of self (pref_candidate args) = Inl ValueError"
    by (simp add: sort_key_of_def)
  with cl show ?thesis
    by (simp add: make_name_def bind_def)
qed

text \<open>
  What \<^verbatim>\<open>make_name\<close> returns, for every name-set, every configuration and every sequence
  of draws. With draws for \<^verbatim>\<open>n_candidates * max_attempts\<close> raw names the call returns.
  The raw names it generates fall into \<^verbatim>\<open>n_candidates\<close> slots, each of at most
  \<^verbatim>\<open>max_attempts\<close> names, ended by its first valid name, which is the candidate of the
  slot; a slot with no valid name has \<^verbatim>\<open>max_attempts\<close> names and no candidate. With no
  candidate the call returns the empty string and leaves the history. Otherwise the
  winner is the first candidate with the least sort key (the metric for \<^verbatim>\<open>MIN\<close>, its
  opposite for \<^verbatim>\<open>MAX\<close>, \<^verbatim>\<open>abs(f(name) - avg) / avg\<close> for \<^verbatim>\<open>AVG\<close> when the cached
  average is not 0), and it is added to the history when \<^verbatim>\<open>add_to_history\<close> is set and
  only then. With \<^verbatim>\<open>AVG\<close> and a cached average of 0 the call raises
  \<^verbatim>\<open>ZeroDivisionError\<close>, with any other preference \<^verbatim>\<open>ValueError\<close>.
\<close>

theorem make_name_selects:
  "(raw_run self (nat (n_candidates args) * nat (max_attempts args)) rng \<noteq> None
      \<longrightarrow> make_name w self banned_words args rng \<noteq> None)
   \<and> (\<forall>cands rng'.
        candidates_loop w self banned_words args (nat (n_candidates args)) [] rng
          = Some (cands, rng') \<longrightarrow>
        (\<exists>slots. length slots = nat (n_candidates args)
           \<and> raw_run self (length (concat slots)) rng = Some (concat slots, rng')
           \<and> (\<forall>s\<in>set slots.
                 slot_ok (name_valid w self banned_words args) (max_attempts args) s)
           \<and> cands = List.map_filter (find (name_valid w self banned_words args)) slots)
        \<and> (cands = [] \<longrightarrow>
             make_name w self banned_words args rng = Some (Inr ([], w), rng'))
        \<and> (cands \<noteq> [] \<longrightarrow> pref_candidate args = MIN_pref \<longrightarrow>
             (\<exists>c. first_least (func (name_len_func self)) cands c
                \<and> make_name w self banned_words args rng
                    = Some (Inr (c, recorded w self (add_to_history_arg args) c), rng')))
        \<and> (cands \<noteq> [] \<longrightarrow> pref_candidate args = MAX_pref \<longrightarrow>
             (\<exists>c. first_least (\<lambda>x. - func (name_len_func self) x) cands c
                \<and> make_name w self banned_words args rng
                    = Some (Inr (c, recorded w self (add_to_history_arg args) c), rng')))
        \<and> (cands \<noteq> [] \<longrightarrow> pref_candidate args = AVG_pref \<longrightarrow> avg_name_len self \<noteq> 0 \<longrightarrow>
             (\<exists>c. first_least (\<lambda>x. \<bar>func (name_len_func self) x - avg_name_len self\<bar>
                                     / avg_name_len self) cands c
                \<and> make_name w self banned_words args rng
                    = Some (Inr (c, recorded w self (add_to_history_arg args) c), rng')))
        \<and> (cands \<noteq> [] \<longrightarrow> pref_candidate args = AVG_pref \<longrightarrow> avg_name_len self = 0 \<longrightarrow>
             make_name w self banned_words args rng = Some (Inl ZeroDivisionError, rng'))
        \<and> (cands \<noteq> [] \<longrightarrow> pref_candidate args \<noteq> MIN_pref \<longrightarrow>
             pref_candidate args \<noteq> MAX_pref \<longrightarrow> pref_candidate args \<noteq> AVG_pref \<longrightarrow>
             make_name w self banned_words args rng = Some (Inl ValueError, rng')))"
proof (intro conjI allI impI)
  assume "raw_run self (nat (n_candidates args) * nat (max_attempts args)) rng \<noteq> None"
  then have "candidates_loop w self banned_words args (nat (n_candidates args)) [] rng \<noteq> None"
    by (rule candidates_loop_returns)
  then show "make_name w self banned_words args rng \<noteq> None"
    by (simp add: make_name_None)
next
  fix cands rng'
  assume cl: "candidates_loop w self banned_words args (nat (n_candidates args)) [] rng
              = Some (cands, rng')"
  from candidates_loop_slots[OF cl]
  show "\<exists>slots. length slots = nat (n_candidates args)
           \<and> raw_run self (length (concat slots)) rng = Some (concat slots, rng')
           \<and> (\<forall>s\<in>set slots.
                 slot_ok (name_valid w self banned_words args) (max_attempts args) s)
           \<and> cands = List.map_filter (find (name_valid w self banned_words args)) slots"
    by simp
  {
    assume "cands = []"
    with cl show "make_name w self banned_words args rng = Some (Inr ([], w), rng')"
      by (simp add: make_name_no_candidates)
  }
  {
    assume ne: "cands \<noteq> []" and p: "pref_candidate args = MIN_pref"
    let ?f = "func (name_len_func self)"
    have k: "sort_key_of self (pref_candidate args) = Inr (\<lambda>x. Inr (?f x))"
      by (simp add: sort_key_of_def p MIN_pref_def AVG_pref_def)
    have "pref_candidate args \<noteq> MAX_pref"
      by (simp add: p MIN_pref_def MAX_pref_def)
    with make_name_with_key[OF cl ne k] hd_sort_key_first_least[OF ne, of ?f]
    show "\<exists>c. first_least ?f cands c
                \<and> make_name w self banned_words args rng
                    = Some (Inr (c, recorded w self (add_to_history_arg args) c), rng')"
      by auto
  }
  {
    assume ne: "cands \<noteq> []" and p: "pref_candidate args = MAX_pref"
    let ?f = "func (name_len_func self)"
    have k: "sort_key_of self (pref_candidate args) = Inr (\<lambda>x. Inr (?f x))"
      by (simp add: sort_key_of_def p MAX_pref_def AVG_pref_def)
    from make_name_with_key[OF cl ne k] hd_sort_key_first_least[OF ne, of "\<lambda>x. - ?f x"] p
    show "\<exists>c. first_least (\<lambda>x. - ?f x) cands c
                \<and> make_name w self banned_words args rng
                    = Some (Inr (c, recorded w self (add_to_history_arg args) c), rng')"
      by auto
  }
  {
    assume ne: "cands \<noteq> []" and p: "pref_candidate args = AVG_pref"
      and nz: "avg_name_len self \<noteq> 0"
    let ?k = "\<lambda>x. \<bar>func (name_len_func self) x - avg_name_len self\<bar> / avg_name_len self"
    have k: "sort_key_of self (pref_candidate args) = Inr (\<lambda>x. Inr (?k x))"
      by (simp add: sort_key_of_def p nz)
    have "pref_candidate args \<noteq> MAX_pref"
      by (simp add: p AVG_pref_def MAX_pref_def)
    with make_name_with_key[OF cl ne k] hd_sort_key_first_least[OF ne, of ?k]
    show "\<exists>c. first_least ?k cands c
                \<and> make_name w self banned_words args rng
                    = Some (Inr (c, recorded w self (add_to_history_arg args) c), rng')"
      by auto
  }
  {
    assume "cands \<noteq> []" "pref_candidate args = AVG_pref" "avg_name_len self = 0"
    with cl show "make_name w self banned_words args rng = Some (Inl ZeroDivisionError, rng')"
      by (simp add: make_name_avg_zero)
  }
  {
    assume ne: "cands \<noteq> []" and "pref_candidate args \<noteq> MIN_pref"
      "pref_candidate args \<noteq> MAX_pref" "pref_candidate args \<noteq> AVG_pref"
    with make_name_unknown_pref[OF cl]
    show "make_name w self banned_words args rng = Some (Inl ValueError, rng')"
      by simp
  }
qed

text \<open>
  C3. With the preference \<^verbatim>\<open>AVG\<close> the winner is to be the candidate with the smallest
  relative deviation from the corpus mean. The sort key \<^verbatim>\<open>abs(f(name) - avg) / avg\<close>
  divides by the mean, not by its absolute value: with a negative mean the keys are
  negative and the least key is that of the largest deviation. For the corpus
  \<^verbatim>\<open>['hey', 'hi', 'hello']\<close> with the metric \<^verbatim>\<open>lambda s: -len(s)\<close> (mean \<open>-10/3\<close>) and
  the candidates \<^verbatim>\<open>'hey'\<close>, \<^verbatim>\<open>'hi'\<close>, \<^verbatim>\<open>'hello'\<close>, whose deviations from the mean are
  \<open>1/3\<close>, \<open>4/3\<close> and \<open>5/3\<close>, \<^verbatim>\<open>make_name(exclude_real_names = False, n_candidates = 3)\<close>
  returns \<^verbatim>\<open>'hello'\<close> and records it in the history.
\<close>

theorem make_name_avg_negative_mean:
  "(case NameSet empty_world [''hey'', ''hi'', ''hello''] DEFAULT_ORDER neg_len of
      Inl e \<Rightarrow> False
    | Inr (self, w) \<Rightarrow>
        avg_name_len self = - 10 / 3
        \<and> candidates_loop w self []
             (default_args\<lparr>exclude_real_names := False, n_candidates := 3\<rparr>) 3 []
             [0, 0, 0, 0, 0, 1, 0, 0, 0, 1, 0, 0, 0] = Some ([''hey'', ''hi'', ''hello''], [])
        \<and> (case make_name w self []
                  (default_args\<lparr>exclude_real_names := False, n_candidates := 3\<rparr>)
                  [0, 0, 0, 0, 0, 1, 0, 0, 0, 1, 0, 0, 0] of
             Some (Inr (name, w'), rng') \<Rightarrow>
               name = ''hello'' \<and> get_history w' self = {''hello''}
           | _ \<Rightarrow> False)
        \<and> \<bar>func neg_len ''hey'' - avg_name_len self\<bar> = 1 / 3
        \<and> \<bar>func neg_len ''hi'' - avg_name_len self\<bar> = 4 / 3
        \<and> \<bar>func neg_len ''hello'' - avg_name_len self\<bar> = 5 / 3)"
  by code_simp

end
